theory Spec2Isabelle
  imports Complex_Main "HOL-Library.Char_ord" "HOL-Library.List_Lexorder"
begin

section \<open>Values shared by the glucose processor and the data merger\<close>

text \<open>
  Errors raised by the code. \<open>ValueError\<close> is raised by the repository's own guards,
  \<open>KeyError\<close> by a column selection that names an absent column, \<open>MergeError\<close> by
  the tolerance join when the tolerance is negative.
\<close>

datatype error = ValueError string | KeyError "string list" | MergeError string

text \<open>
  A float as the data frames hold it: a finite number, an infinity or NaN (the null of a
  numeric column). Comparisons with NaN are false, as in Python.
\<close>

datatype fval = FNaN | FNegInf | FFin real | FPosInf

fun fgt :: "fval \<Rightarrow> real \<Rightarrow> bool" where
  "fgt (FFin x) c = (x > c)"
| "fgt FPosInf c = True"
| "fgt FNegInf c = False"
| "fgt FNaN c = False"

fun flt :: "fval \<Rightarrow> real \<Rightarrow> bool" where
  "flt (FFin x) c = (x < c)"
| "flt FNegInf c = True"
| "flt FPosInf c = False"
| "flt FNaN c = False"

text \<open>\<open>Series.between(left, right)\<close>, inclusive on both sides: \<open>left <= x\<close> and \<open>x <= right\<close>.\<close>

fun fbetween :: "fval \<Rightarrow> real \<Rightarrow> real \<Rightarrow> bool" where
  "fbetween (FFin x) left right = (left \<le> x \<and> x \<le> right)"
| "fbetween FPosInf left right = False"
| "fbetween FNegInf left right = False"
| "fbetween FNaN left right = False"

definition between :: "('a::linorder) \<Rightarrow> 'a \<Rightarrow> 'a \<Rightarrow> bool" where
  "between x left right = (left \<le> x \<and> x \<le> right)"

text \<open>Float division \<open>x / y\<close> of two finite numbers, with the results of a zero divisor.\<close>

definition fdiv :: "real \<Rightarrow> real \<Rightarrow> fval" where
  "fdiv x y =
     (if y \<noteq> 0 then FFin (x / y)
      else if x > 0 then FPosInf
      else if x < 0 then FNegInf
      else FNaN)"

text \<open>Multiplication of a float by a finite positive constant.\<close>

fun fscale :: "fval \<Rightarrow> real \<Rightarrow> fval" where
  "fscale (FFin x) c = FFin (x * c)"
| "fscale v c = v"

text \<open>
  The rounding of the result of a float operation to a double: to the nearest number with
  a significand of 53 bits, a tie going to the even significand. The range of the exponent
  is left unbounded (no overflow and no underflow). It is written out where a property
  depends on the rounded results, in the percentages of the time-in-range statistics;
  elsewhere a float result stands for its exact value.
\<close>

definition round_even :: "real \<Rightarrow> int" where
  "round_even m =
     (let f = \<lfloor>m\<rfloor>
      in if m - of_int f < 1 / 2 then f
         else if m - of_int f > 1 / 2 then f + 1
         else if even f then f else f + 1)"

definition double_round :: "real \<Rightarrow> real" where
  "double_round x =
     (if x = 0 then 0
      else (let e = \<lfloor>log 2 \<bar>x\<bar>\<rfloor> - 52
            in of_int (round_even (x / 2 powi e)) * 2 powi e))"

text \<open>
  An insertion sort by a comparison, for \<open>sort_values\<close>. It keeps rows of equal key in
  their order; the default sort of the library does not promise that, and no property
  below depends on the order of rows of equal key.
\<close>

fun insert_by :: "('a \<Rightarrow> 'a \<Rightarrow> bool) \<Rightarrow> 'a \<Rightarrow> 'a list \<Rightarrow> 'a list" where
  "insert_by le x [] = [x]"
| "insert_by le x (y # ys) = (if le x y then x # y # ys else y # insert_by le x ys)"

fun sort_by :: "('a \<Rightarrow> 'a \<Rightarrow> bool) \<Rightarrow> 'a list \<Rightarrow> 'a list" where
  "sort_by le [] = []"
| "sort_by le (x # xs) = insert_by le x (sort_by le xs)"

section \<open>The glucose processor (glucose\_processor.py)\<close>

subsection \<open>Raw frames and column names\<close>

text \<open>
  A cell of the CSV as \<open>read_csv\<close> delivers it: a number, a text, or missing. A text
  that denotes an instant is kept as \<open>Time t\<close>, with \<open>t\<close> the seconds since the
  epoch; \<open>to_datetime(errors="coerce")\<close> turns every other cell into NaT.
\<close>

datatype cell = Null | Num real | Time int | Str string

text \<open>A frame: the column names of the header, and the rows, one cell per column.\<close>

record frame =
  columns :: "string list"
  rows :: "cell list list"

definition column_mappings :: "(string \<times> string) list" where
  "column_mappings =
    [(''Device Timestamp'', ''timestamp''),
     (''Timestamp (YYYY-MM-DD HH:MM:SS)'', ''timestamp''),
     (''Time'', ''timestamp''),
     (''Date'', ''date''),
     (''Historic Glucose mg/dL'', ''glucose_mg_dl''),
     (''Historic Glucose (mg/dL)'', ''glucose_mg_dl''),
     (''Historic Glucose mmol/L'', ''glucose_mmol_l''),
     (''Glucose Value (mg/dL)'', ''glucose_mg_dl''),
     (''Glucose Value (mmol/L)'', ''glucose_mmol_l''),
     (''Record Type'', ''record_type''),
     (''Scan Glucose mg/dL'', ''scan_glucose_mg_dl''),
     (''Scan Glucose (mg/dL)'', ''scan_glucose_mg_dl''),
     (''Scan Glucose mmol/L'', ''scan_glucose_mmol_l''),
     (''Strip Glucose mg/dL'', ''strip_glucose_mg_dl''),
     (''Strip Glucose (mg/dL)'', ''strip_glucose_mg_dl''),
     (''Strip Glucose mmol/L'', ''strip_glucose_mmol_l''),
     (''Notes'', ''notes''),
     (''Serial Number'', ''serial_number''),
     (''Device'', ''device''),
     (''Ketone mmol/L'', ''ketone_mmol_l''),
     (''Rapid-Acting Insulin (units)'', ''rapid_acting_insulin_units''),
     (''Carbohydrates (grams)'', ''carbohydrates_grams''),
     (''Long-Acting Insulin (units)'', ''long_acting_insulin_units'')]"

text \<open>\<open>rename(columns=column_mappings)\<close>: a name of the table is replaced, any other kept.\<close>

definition rename :: "(string \<times> string) list \<Rightarrow> string list \<Rightarrow> string list" where
  "rename m cols = map (\<lambda>c. case map_of m c of Some c' \<Rightarrow> c' | None \<Rightarrow> c) cols"

text \<open>
  \<open>standardize_columns\<close> renames the columns and looks for the required ones. A missing
  required column is only logged: the second component of the result is the list handed
  to \<open>logging.warning\<close> (empty when nothing is logged).
\<close>

definition standardize_columns :: "frame option \<Rightarrow> error + (frame \<times> string list)" where
  "standardize_columns raw_data =
     (case raw_data of
        None \<Rightarrow> Inl (ValueError ''CSV file not loaded. Call load_csv() first.'')
      | Some df \<Rightarrow>
          (let cols = rename column_mappings (columns df);
               required_columns = [''timestamp'', ''glucose_mg_dl''];
               missing_columns = filter (\<lambda>col. col \<notin> set cols) required_columns
           in Inr (df\<lparr>columns := cols\<rparr>, missing_columns)))"

subsection \<open>Reading the cells of a row\<close>

text \<open>The cell of a row under a column name. The header is taken to name a standardized
  column at most once; the first column of the name is read.\<close>

fun cell_at :: "string list \<Rightarrow> cell list \<Rightarrow> string \<Rightarrow> cell" where
  "cell_at [] row name = Null"
| "cell_at (c # cs) [] name = Null"
| "cell_at (c # cs) (x # xs) name = (if c = name then x else cell_at cs xs name)"

text \<open>\<open>pd.to_datetime(errors="coerce")\<close>: an instant, or NaT (\<open>None\<close>).\<close>

fun to_datetime :: "cell \<Rightarrow> int option" where
  "to_datetime (Time t) = Some t"
| "to_datetime c = None"

text \<open>The value of a cell of a numeric column; \<open>None\<close> is NaN.\<close>

fun num_of :: "cell \<Rightarrow> real option" where
  "num_of (Num x) = Some x"
| "num_of c = None"

subsection \<open>Consolidating the three reading types\<close>

text \<open>
  \<open>df[glucose_columns].bfill(axis=1).iloc[:, 0]\<close> over the columns
  \<open>glucose_mg_dl\<close>, \<open>scan_glucose_mg_dl\<close>, \<open>strip_glucose_mg_dl\<close>: the first column
  holds its own value when present, and otherwise the next present value to its right.
\<close>

fun bfill_first :: "real option list \<Rightarrow> real option" where
  "bfill_first [] = None"
| "bfill_first (Some v # vs) = Some v"
| "bfill_first (None # vs) = bfill_first vs"

definition glucose_value_of :: "real option \<Rightarrow> real option \<Rightarrow> real option \<Rightarrow> real option" where
  "glucose_value_of historic scan strip = bfill_first [historic, scan, strip]"

text \<open>
  The source label: \<open>historic\<close> first, overwritten by \<open>scan\<close> where the scan column is
  not null, then overwritten by \<open>fingerstick\<close> where the strip column is not null.
\<close>

definition glucose_source_of :: "real option \<Rightarrow> real option \<Rightarrow> real option \<Rightarrow> string" where
  "glucose_source_of historic scan strip =
     (let s0 = ''historic'';
          s1 = (if scan \<noteq> None then ''scan'' else s0);
          s2 = (if strip \<noteq> None then ''fingerstick'' else s1)
      in s2)"

record base_row =
  timestamp :: "int option"
  glucose_value :: "real option"
  glucose_source :: string

text \<open>
  One row after the conversions of \<open>clean_and_process\<close>. \<open>cols\<close> are the standardized
  column names; the historic value is the \<open>glucose_mg_dl\<close> column when the frame has
  one, and otherwise the \<open>glucose_mmol_l\<close> column times 18.0182.
\<close>

definition historic_of :: "string list \<Rightarrow> cell list \<Rightarrow> real option" where
  "historic_of cols row =
     (if ''glucose_mmol_l'' \<in> set cols \<and> ''glucose_mg_dl'' \<notin> set cols
      then map_option (\<lambda>x. x * 18.0182) (num_of (cell_at cols row ''glucose_mmol_l''))
      else num_of (cell_at cols row ''glucose_mg_dl''))"

definition consolidate :: "string list \<Rightarrow> cell list \<Rightarrow> base_row" where
  "consolidate cols row =
     (let historic = historic_of cols row;
          scan = num_of (cell_at cols row ''scan_glucose_mg_dl'');
          strip = num_of (cell_at cols row ''strip_glucose_mg_dl'')
      in \<lparr>timestamp = to_datetime (cell_at cols row ''timestamp''),
          glucose_value = glucose_value_of historic scan strip,
          glucose_source = glucose_source_of historic scan strip\<rparr>)"

text \<open>\<open>df["glucose_value"].between(20, 600)\<close>; a NaN value is not between.\<close>

definition valid_reading :: "base_row \<Rightarrow> bool" where
  "valid_reading r = (case glucose_value r of None \<Rightarrow> False | Some v \<Rightarrow> between v 20 600)"

text \<open>\<open>drop_duplicates(subset=["timestamp"])\<close>: the first row of each timestamp is kept
  (NaT counts as equal to NaT).\<close>

fun drop_duplicates :: "int option list \<Rightarrow> base_row list \<Rightarrow> base_row list" where
  "drop_duplicates seen [] = []"
| "drop_duplicates seen (r # rs) =
     (if timestamp r \<in> set seen then drop_duplicates seen rs
      else r # drop_duplicates (timestamp r # seen) rs)"

text \<open>The order of \<open>sort_values("timestamp")\<close>: ascending, NaT last.\<close>

fun ts_le :: "int option \<Rightarrow> int option \<Rightarrow> bool" where
  "ts_le (Some a) (Some b) = (a \<le> b)"
| "ts_le a None = True"
| "ts_le None (Some b) = False"

definition sort_values :: "base_row list \<Rightarrow> base_row list" where
  "sort_values df = sort_by (\<lambda>a b. ts_le (timestamp a) (timestamp b)) df"

subsection \<open>Derived metrics\<close>

record glucose_reading = base_row +
  glucose_rate_change :: fval
  glucose_trend :: string
  hour :: "int option"
  day_of_week :: "int option"
  is_weekend :: bool
  glucose_range :: string

text \<open>
  \<open>glucose_value.diff() / timestamp.diff().dt.total_seconds() * 60\<close> for a row and the
  row before it; the first row has no row before it and its differences are NaN.
\<close>

definition rate_change :: "base_row option \<Rightarrow> base_row \<Rightarrow> fval" where
  "rate_change prev r =
     (case prev of
        None \<Rightarrow> FNaN
      | Some p \<Rightarrow>
          (case (glucose_value p, glucose_value r, timestamp p, timestamp r) of
             (Some v0, Some v1, Some t0, Some t1) \<Rightarrow>
               fscale (fdiv (v1 - v0) (real_of_int (t1 - t0))) 60
           | _ \<Rightarrow> FNaN))"

text \<open>The trend label, by the assignments of the source in their order.\<close>

definition trend_of :: "fval \<Rightarrow> string" where
  "trend_of rate =
     (let t0 = ''stable'';
          t1 = (if fgt rate 2 then ''rising_fast'' else t0);
          t2 = (if fbetween rate 1 2 then ''rising'' else t1);
          t3 = (if fbetween rate (- 1) (- 2) then ''falling'' else t2);
          t4 = (if flt rate (- 2) then ''falling_fast'' else t3)
      in t4)"

text \<open>The range label, by the assignments of the source in their order.\<close>

definition range_of :: "real option \<Rightarrow> string" where
  "range_of value =
     (let v = (case value of None \<Rightarrow> FNaN | Some x \<Rightarrow> FFin x);
          g0 = ''normal'';
          g1 = (if flt v 70 then ''low'' else g0);
          g2 = (if fgt v 180 then ''high'' else g1);
          g3 = (if flt v 54 then ''very_low'' else g2);
          g4 = (if fgt v 250 then ''very_high'' else g3)
      in g4)"

text \<open>Hour of day and day of week (Monday is 0) of an instant in seconds since the
  epoch, which began on a Thursday.\<close>

definition hour_of :: "int \<Rightarrow> int" where
  "hour_of t = (t mod 86400) div 3600"

definition dayofweek_of :: "int \<Rightarrow> int" where
  "dayofweek_of t = (t div 86400 + 3) mod 7"

definition metrics_row :: "base_row option \<Rightarrow> base_row \<Rightarrow> glucose_reading" where
  "metrics_row prev r =
     (let rate = rate_change prev r;
          dow = map_option dayofweek_of (timestamp r)
      in \<lparr>timestamp = timestamp r,
          glucose_value = glucose_value r,
          glucose_source = glucose_source r,
          glucose_rate_change = rate,
          glucose_trend = trend_of rate,
          hour = map_option hour_of (timestamp r),
          day_of_week = dow,
          is_weekend = (dow = Some 5 \<or> dow = Some 6),
          glucose_range = range_of (glucose_value r)\<rparr>)"

fun metrics_from :: "base_row option \<Rightarrow> base_row list \<Rightarrow> glucose_reading list" where
  "metrics_from prev [] = []"
| "metrics_from prev (r # rs) = metrics_row prev r # metrics_from (Some r) rs"

definition add_glucose_metrics :: "base_row list \<Rightarrow> glucose_reading list" where
  "add_glucose_metrics df = metrics_from None df"

subsection \<open>Normalization\<close>

text \<open>
  \<open>clean_and_process\<close>. The selection \<open>df[glucose_columns]\<close> raises \<open>KeyError\<close> with
  the absent names when one of the three columns is not in the frame, and so does
  \<open>drop_duplicates(subset=["timestamp"])\<close> when there is no timestamp column.
\<close>

definition glucose_columns :: "string list" where
  "glucose_columns = [''glucose_mg_dl'', ''scan_glucose_mg_dl'', ''strip_glucose_mg_dl'']"

definition clean_and_process :: "frame option \<Rightarrow> error + glucose_reading list" where
  "clean_and_process raw_data =
     (case standardize_columns raw_data of
        Inl e \<Rightarrow> Inl e
      | Inr (df, warned) \<Rightarrow>
          (let cols = columns df;
               cols' = (if ''glucose_mmol_l'' \<in> set cols \<and> ''glucose_mg_dl'' \<notin> set cols
                        then cols @ [''glucose_mg_dl''] else cols);
               absent = filter (\<lambda>c. c \<notin> set cols') glucose_columns
           in if absent \<noteq> [] then Inl (KeyError absent)
              else if ''timestamp'' \<notin> set cols' then Inl (KeyError [''timestamp''])
              else Inr (add_glucose_metrics (sort_values (drop_duplicates []
                     (filter valid_reading (map (consolidate cols) (rows df))))))))"

subsection \<open>Time-in-range statistics\<close>

text \<open>\<open>Series.mean()\<close> and \<open>Series.std()\<close> (sample standard deviation, \<open>ddof=1\<close>) over the
  values that are not null; NaN when there are too few of them.\<close>

definition mean :: "real list \<Rightarrow> fval" where
  "mean xs = (if xs = [] then FNaN else FFin (sum_list xs / real (length xs)))"

definition std :: "real list \<Rightarrow> fval" where
  "std xs =
     (if length xs < 2 then FNaN
      else (let m = sum_list xs / real (length xs)
            in FFin (sqrt (sum_list (map (\<lambda>x. (x - m)\<^sup>2) xs) / real (length xs - 1)))))"

text \<open>\<open>(df["glucose_range"] == c).sum()\<close>.\<close>

definition count_range :: "string \<Rightarrow> glucose_reading list \<Rightarrow> nat" where
  "count_range c df = length (filter (\<lambda>r. glucose_range r = c) df)"

text \<open>\<open>k / n * 100\<close> on floats: the quotient is rounded, and so is the product.\<close>

definition percent :: "nat \<Rightarrow> nat \<Rightarrow> real" where
  "percent k n = double_round (double_round (real k / real n) * 100)"

text \<open>
  \<open>get_time_in_range_stats\<close>; the dictionary is the list of its items in their order.
  The average, the deviation and the coefficient of variation are kept as exact values
  (the order of their summations is that of the library).
\<close>

definition get_time_in_range_stats ::
  "glucose_reading list option \<Rightarrow> error + (string \<times> fval) list" where
  "get_time_in_range_stats processed_data =
     (case processed_data of
        None \<Rightarrow> Inl (ValueError ''Data not processed. Call clean_and_process() first.'')
      | Some df \<Rightarrow>
          (let total_readings = length df;
               vals = List.map_filter glucose_value df
           in if total_readings = 0 then Inr []
              else Inr
                [(''time_very_low_percent'',
                    FFin (percent (count_range ''very_low'' df) total_readings)),
                 (''time_low_percent'',
                    FFin (percent (count_range ''low'' df) total_readings)),
                 (''time_in_range_percent'',
                    FFin (percent (count_range ''normal'' df) total_readings)),
                 (''time_high_percent'',
                    FFin (percent (count_range ''high'' df) total_readings)),
                 (''time_very_high_percent'',
                    FFin (percent (count_range ''very_high'' df) total_readings)),
                 (''average_glucose'', mean vals),
                 (''glucose_std'', std vals),
                 (''coefficient_variation'',
                    (case (std vals, mean vals) of
                       (FFin s, FFin m) \<Rightarrow> fscale (fdiv s m) 100
                     | _ \<Rightarrow> FNaN))]))"

text \<open>The sequence of the example at the end of the module: the statistics of the data
  that \<open>clean_and_process\<close> has stored.\<close>

definition process_and_stats :: "frame option \<Rightarrow> error + (string \<times> fval) list" where
  "process_and_stats raw_data =
     (case clean_and_process raw_data of
        Inl e \<Rightarrow> Inl e
      | Inr processed_data \<Rightarrow> get_time_in_range_stats (Some processed_data))"

section \<open>The data merger (data\_merger.py)\<close>

subsection \<open>Health records\<close>

text \<open>
  A row of the health frame that \<open>extract_health_records\<close> builds; the dates are
  seconds since the epoch, or NaT. The frame has the columns of its rows, and no column
  at all when it was built from no record.
\<close>

record health_record =
  type :: "string option"
  sourceName :: "string option"
  health_value :: "real option"
  unit :: "string option"
  creationDate :: "int option"
  startDate :: "int option"
  endDate :: "int option"

record health_frame =
  hcolumns :: "string list"
  hrows :: "health_record list"

subsection \<open>The tolerance join\<close>

text \<open>
  \<open>pd.merge_asof(left, right, tolerance, direction="nearest")\<close> on keys that are sorted
  and not null. The rows are paired with their keys first; a null key is an error.
\<close>

fun keyed :: "('a \<Rightarrow> int option) \<Rightarrow> 'a list \<Rightarrow> (int \<times> 'a) list option" where
  "keyed key [] = Some []"
| "keyed key (x # xs) =
     (case key x of
        None \<Rightarrow> None
      | Some k \<Rightarrow> (case keyed key xs of None \<Rightarrow> None | Some ys \<Rightarrow> Some ((k, x) # ys)))"

text \<open>
  The backward search: the last right row of the leading run of rows whose key is at most
  the left key, given up when it is farther than the tolerance.
\<close>

definition asof_backward :: "int \<Rightarrow> (int \<times> 'b) list \<Rightarrow> int \<Rightarrow> (int \<times> 'b) option" where
  "asof_backward t right tolerance =
     (case rev (takeWhile (\<lambda>g. fst g \<le> t) right) of
        [] \<Rightarrow> None
      | g # _ \<Rightarrow> if t - fst g > tolerance then None else Some g)"

text \<open>
  The forward search, from the end of the right rows: the first right row of the trailing
  run of rows whose key is at least the left key, given up when it is farther than the
  tolerance.
\<close>

definition asof_forward :: "int \<Rightarrow> (int \<times> 'b) list \<Rightarrow> int \<Rightarrow> (int \<times> 'b) option" where
  "asof_forward t right tolerance =
     (case rev (takeWhile (\<lambda>g. fst g \<ge> t) (rev right)) of
        [] \<Rightarrow> None
      | g # _ \<Rightarrow> if fst g - t > tolerance then None else Some g)"

text \<open>The nearest search chooses the backward row unless the forward row is strictly
  nearer.\<close>

definition asof_nearest :: "int \<Rightarrow> (int \<times> 'b) list \<Rightarrow> int \<Rightarrow> (int \<times> 'b) option" where
  "asof_nearest t right tolerance =
     (case (asof_backward t right tolerance, asof_forward t right tolerance) of
        (Some b, Some f) \<Rightarrow> if t - fst b \<le> fst f - t then Some b else Some f
      | (Some b, None) \<Rightarrow> Some b
      | (None, f) \<Rightarrow> f)"

definition merge_asof ::
  "'a list \<Rightarrow> ('a \<Rightarrow> int option) \<Rightarrow> 'b list \<Rightarrow> ('b \<Rightarrow> int option) \<Rightarrow> int \<Rightarrow>
     error + ((int \<times> 'a) \<times> (int \<times> 'b) option) list" where
  "merge_asof left left_on right right_on tolerance =
     (if tolerance < 0 then Inl (MergeError ''tolerance must be positive'')
      else (case keyed left_on left of
              None \<Rightarrow> Inl (ValueError ''Merge keys contain null values on left side'')
            | Some l \<Rightarrow>
                (case keyed right_on right of
                   None \<Rightarrow> Inl (ValueError ''Merge keys contain null values on right side'')
                 | Some r \<Rightarrow> Inr (map (\<lambda>h. (h, asof_nearest (fst h) r tolerance)) l))))"

subsection \<open>Aligning the two series\<close>

record aligned_record =
  health :: health_record
  health_timestamp :: int
  reading :: glucose_reading
  glucose_timestamp :: int
  time_diff_minutes :: real

text \<open>\<open>dropna(subset=["glucose_timestamp"])\<close>, then the time difference in minutes.\<close>

fun dropna_glucose ::
  "((int \<times> health_record) \<times> (int \<times> glucose_reading) option) list \<Rightarrow>
     ((int \<times> health_record) \<times> (int \<times> glucose_reading)) list" where
  "dropna_glucose [] = []"
| "dropna_glucose ((h, None) # ms) = dropna_glucose ms"
| "dropna_glucose ((h, Some g) # ms) = (h, g) # dropna_glucose ms"

definition aligned_of :: "(int \<times> health_record) \<times> (int \<times> glucose_reading) \<Rightarrow> aligned_record" where
  "aligned_of m =
     (case m of ((t, h), (u, g)) \<Rightarrow>
        \<lparr>health = h, health_timestamp = t, reading = g, glucose_timestamp = u,
         time_diff_minutes = real_of_int (t - u) / 60\<rparr>)"

text \<open>
  \<open>align_timestamps\<close>, on the two fields of the merger that the load operations set
  (\<open>None\<close> before the load) and the tolerance in minutes; instants are in seconds.
\<close>

definition align_timestamps ::
  "health_frame option \<Rightarrow> glucose_reading list option \<Rightarrow> int \<Rightarrow> error + aligned_record list" where
  "align_timestamps apple_health_data glucose_data tolerance_minutes =
     (case (apple_health_data, glucose_data) of
        (Some health_data, Some glucose) \<Rightarrow>
          if ''startDate'' \<notin> set (hcolumns health_data)
          then Inl (ValueError ''Apple Health data must have startDate column'')
          else
            (let glucose_df = sort_by (\<lambda>a b. ts_le (timestamp a) (timestamp b)) glucose;
                 health_df = sort_by (\<lambda>a b. ts_le (startDate a) (startDate b)) (hrows health_data);
                 tolerance = 60 * tolerance_minutes
             in (case merge_asof health_df startDate glucose_df timestamp tolerance of
                   Inl e \<Rightarrow> Inl e
                 | Inr merged_df \<Rightarrow> Inr (map aligned_of (dropna_glucose merged_df))))
      | _ \<Rightarrow> Inl (ValueError ''Both datasets must be loaded before merging''))"

subsection \<open>Time windows\<close>

text \<open>
  \<open>Series.mode()\<close>: the values that occur most often among those that are not null, in
  ascending order. The aggregation of a window takes the first of them, and null when
  there is none.
\<close>

definition dropna :: "'a option list \<Rightarrow> 'a list" where
  "dropna xs = List.map_filter id xs"

definition mode :: "('a::linorder) list \<Rightarrow> 'a list" where
  "mode xs = sort (remdups (filter (\<lambda>v. list_all (\<lambda>w. count_list xs w \<le> count_list xs v) xs) xs))"

definition mode_agg :: "('a::linorder) option list \<Rightarrow> 'a option" where
  "mode_agg x = (case mode (dropna x) of [] \<Rightarrow> None | m # _ \<Rightarrow> Some m)"

text \<open>Sum of the values that are not null, and the number of them.\<close>

definition nansum :: "real option list \<Rightarrow> real" where
  "nansum xs = sum_list (dropna xs)"

record window_row =
  window_start :: int
  glucose_value_mean :: fval
  glucose_value_std :: fval
  glucose_value_count :: nat
  value_mean :: fval
  value_sum :: real
  time_diff_minutes_mean :: fval
  type_mode :: "string option"
  glucose_range_mode :: "string option"
  glucose_trend_mode :: "string option"
  sourceName_mode :: "string option"

text \<open>
  The bins of \<open>resample\<close> for a frequency of \<open>window_minutes\<close> minutes: left-closed
  intervals of that length, counted from the midnight before the earliest row. A row is
  in bin \<open>i\<close> when \<open>bin_of origin width (glucose_timestamp r) = i\<close>.
\<close>

definition bin_of :: "int \<Rightarrow> int \<Rightarrow> int \<Rightarrow> int" where
  "bin_of origin width t = (t - origin) div width"

definition window_rows :: "int \<Rightarrow> int \<Rightarrow> aligned_record list \<Rightarrow> int \<Rightarrow> aligned_record list" where
  "window_rows origin width df i = filter (\<lambda>r. bin_of origin width (glucose_timestamp r) = i) df"

definition aggregate_window :: "int \<Rightarrow> int \<Rightarrow> aligned_record list \<Rightarrow> int \<Rightarrow> window_row" where
  "aggregate_window origin width df i =
     (let x = window_rows origin width df i;
          glucose_values = dropna (map (\<lambda>r. glucose_value (reading r)) x)
      in \<lparr>window_start = origin + i * width,
          glucose_value_mean = mean glucose_values,
          glucose_value_std = std glucose_values,
          glucose_value_count = length glucose_values,
          value_mean = mean (dropna (map (\<lambda>r. health_value (health r)) x)),
          value_sum = nansum (map (\<lambda>r. health_value (health r)) x),
          time_diff_minutes_mean = mean (map time_diff_minutes x),
          type_mode = mode_agg (map (\<lambda>r. type (health r)) x),
          glucose_range_mode = mode_agg (map (\<lambda>r. Some (glucose_range (reading r))) x),
          glucose_trend_mode = mode_agg (map (\<lambda>r. Some (glucose_trend (reading r))) x),
          sourceName_mode = mode_agg (map (\<lambda>r. sourceName (health r)) x)\<rparr>)"

text \<open>
  \<open>create_time_windows\<close> on the merged data (\<open>None\<close> before \<open>align_timestamps\<close> has
  run). Every bin from that of the earliest row to that of the latest is aggregated, and
  the windows whose glucose mean is null are dropped. A number of minutes that is not
  positive is no frequency to resample at; the failure of the library is recorded as a
  \<open>ValueError\<close>.
\<close>

definition create_time_windows ::
  "aligned_record list option \<Rightarrow> int \<Rightarrow> error + window_row list" where
  "create_time_windows merged_data window_minutes =
     (case merged_data of
        None \<Rightarrow> Inl (ValueError ''Data must be merged before creating time windows'')
      | Some df \<Rightarrow>
          if window_minutes \<le> 0 then Inl (ValueError ''Invalid frequency'')
          else
            (case df of
               [] \<Rightarrow> Inr []
             | r # rs \<Rightarrow>
                 (let t_min = fold min (map glucose_timestamp rs) (glucose_timestamp r);
                      t_max = fold max (map glucose_timestamp rs) (glucose_timestamp r);
                      origin = (t_min div 86400) * 86400;
                      width = 60 * window_minutes;
                      windowed_data =
                        map (aggregate_window origin width df)
                          [bin_of origin width t_min..bin_of origin width t_max]
                  in Inr (filter (\<lambda>w. glucose_value_mean w \<noteq> FNaN) windowed_data))))"

subsection \<open>Reference notions for the aggregation of a window\<close>

text \<open>
  \<open>smallest_mode x res\<close>: \<open>res\<close> is null when \<open>x\<close> has no value that is not null, and
  otherwise a value of \<open>x\<close> that no value occurs more often than, and that is at most every
  value that occurs as often.
\<close>

definition smallest_mode :: "('a::linorder) option list \<Rightarrow> 'a option \<Rightarrow> bool" where
  "smallest_mode x res =
     (case res of
        None \<Rightarrow> dropna x = []
      | Some m \<Rightarrow>
          m \<in> set (dropna x) \<and>
          (\<forall>v. count_list (dropna x) v \<le> count_list (dropna x) m) \<and>
          (\<forall>v. count_list (dropna x) v = count_list (dropna x) m \<longrightarrow> m \<le> v))"

text \<open>The mode with ties broken by the first value met in the order of the rows.\<close>

definition first_encountered_mode :: "'a option list \<Rightarrow> 'a option" where
  "first_encountered_mode x =
     (case filter (\<lambda>v. list_all (\<lambda>w. count_list (dropna x) w \<le> count_list (dropna x) v) (dropna x))
             (dropna x) of
        [] \<Rightarrow> None
      | m # _ \<Rightarrow> Some m)"

text \<open>The rows of a frame whose glucose timestamp is in the window that starts at
  \<open>start\<close> (seconds) and lasts \<open>window_minutes\<close> minutes.\<close>

definition rows_in_window :: "aligned_record list \<Rightarrow> int \<Rightarrow> int \<Rightarrow> aligned_record list" where
  "rows_in_window df start window_minutes =
     filter (\<lambda>r. start \<le> glucose_timestamp r \<and> glucose_timestamp r < start + 60 * window_minutes) df"

subsection \<open>Contextual features\<close>

record features =
  ctx_hour :: "int option"
  ctx_day_of_week :: "int option"
  ctx_is_weekend :: bool
  is_night :: bool
  is_morning :: bool
  is_afternoon :: bool
  is_evening :: bool
  likely_meal_time :: bool

text \<open>The features of one timestamp; the hour of NaT is NaN, which is between nothing.\<close>

definition hour_between :: "int option \<Rightarrow> int \<Rightarrow> int \<Rightarrow> bool" where
  "hour_between h left right = (case h of None \<Rightarrow> False | Some x \<Rightarrow> between x left right)"

definition features_of :: "int option \<Rightarrow> features" where
  "features_of t =
     (let h = map_option hour_of t;
          d = map_option dayofweek_of t
      in \<lparr>ctx_hour = h,
          ctx_day_of_week = d,
          ctx_is_weekend = (d = Some 5 \<or> d = Some 6),
          is_night = hour_between h 22 6,
          is_morning = hour_between h 6 12,
          is_afternoon = hour_between h 12 18,
          is_evening = hour_between h 18 22,
          likely_meal_time =
            (hour_between h 7 9 \<or> hour_between h 12 14 \<or> hour_between h 18 20)\<rparr>)"

text \<open>
  \<open>add_contextual_features\<close> on a frame given by its column names, the reader of its
  timestamp columns and its rows: the glucose timestamp is used when the frame has one,
  else the health timestamp, and a frame with neither is returned as it is.
\<close>

definition add_contextual_features ::
  "string list \<Rightarrow> (string \<Rightarrow> 'r \<Rightarrow> int option) \<Rightarrow> 'r list \<Rightarrow> ('r \<times> features option) list" where
  "add_contextual_features cols col df =
     (if ''glucose_timestamp'' \<in> set cols
      then map (\<lambda>r. (r, Some (features_of (col ''glucose_timestamp'' r)))) df
      else if ''health_timestamp'' \<in> set cols
      then map (\<lambda>r. (r, Some (features_of (col ''health_timestamp'' r)))) df
      else map (\<lambda>r. (r, None)) df)"

section \<open>Sample inputs\<close>

definition libre_columns :: "string list" where
  "libre_columns =
     [''Device Timestamp'', ''Historic Glucose mg/dL'', ''Scan Glucose mg/dL'',
      ''Strip Glucose mg/dL'']"

text \<open>Two historic readings five minutes apart, the second 7.5 mg/dL lower.\<close>

definition falling_frame :: frame where
  "falling_frame =
     \<lparr>columns = libre_columns,
      rows = [[Time 0, Num 100, Null, Null], [Time 300, Num 92.5, Null, Null]]\<rparr>"

text \<open>One row that holds a historic and a scan value.\<close>

definition both_frame :: frame where
  "both_frame = \<lparr>columns = libre_columns, rows = [[Time 0, Num 100, Num 110, Null]]\<rparr>"

text \<open>A frame with a timestamp and notes, and no glucose column.\<close>

definition notes_frame :: frame where
  "notes_frame =
     \<lparr>columns = [''Device Timestamp'', ''Notes''], rows = [[Time 0, Str ''breakfast'']]\<rparr>"

text \<open>Readings at the boundaries of the range categories.\<close>

definition boundary_frame :: frame where
  "boundary_frame =
     \<lparr>columns = libre_columns,
      rows = [[Time 0, Num 70, Null, Null], [Time 300, Num 69.999, Null, Null],
              [Time 600, Num 180, Null, Null], [Time 900, Num 180.001, Null, Null]]\<rparr>"

text \<open>Three readings: one low, one normal, one high.\<close>

definition thirds_frame :: frame where
  "thirds_frame =
     \<lparr>columns = libre_columns,
      rows = [[Time 0, Num 60, Null, Null], [Time 300, Num 100, Null, Null],
              [Time 600, Num 200, Null, Null]]\<rparr>"

definition reading_70 :: glucose_reading where
  "reading_70 =
     \<lparr>timestamp = Some 0, glucose_value = Some 70, glucose_source = ''historic'',
      glucose_rate_change = FNaN, glucose_trend = ''stable'', hour = Some 0,
      day_of_week = Some 3, is_weekend = False, glucose_range = ''normal''\<rparr>"

definition reading_69_999 :: glucose_reading where
  "reading_69_999 =
     \<lparr>timestamp = Some 300, glucose_value = Some 69.999, glucose_source = ''historic'',
      glucose_rate_change = FFin (- (1 / 5000)), glucose_trend = ''stable'', hour = Some 0,
      day_of_week = Some 3, is_weekend = False, glucose_range = ''low''\<rparr>"

definition reading_180 :: glucose_reading where
  "reading_180 =
     \<lparr>timestamp = Some 600, glucose_value = Some 180, glucose_source = ''historic'',
      glucose_rate_change = FFin (110001 / 5000), glucose_trend = ''rising_fast'',
      hour = Some 0, day_of_week = Some 3, is_weekend = False, glucose_range = ''normal''\<rparr>"

definition reading_180_001 :: glucose_reading where
  "reading_180_001 =
     \<lparr>timestamp = Some 900, glucose_value = Some 180.001, glucose_source = ''historic'',
      glucose_rate_change = FFin (1 / 5000), glucose_trend = ''stable'', hour = Some 0,
      day_of_week = Some 3, is_weekend = False, glucose_range = ''high''\<rparr>"

definition boundary_readings :: "glucose_reading list" where
  "boundary_readings = [reading_70, reading_69_999, reading_180, reading_180_001]"

text \<open>
  Health records: steps at 450 s, midway between the readings at 300 s and 600 s; a heart
  rate at 1100 s, 200 s after the last reading; a sleep record at 2100 s, twenty minutes
  after the last reading.
\<close>

definition parsed_columns :: "string list" where
  "parsed_columns =
     [''type'', ''sourceName'', ''value'', ''unit'', ''creationDate'', ''startDate'', ''endDate'']"

definition steps_450 :: health_record where
  "steps_450 =
     \<lparr>type = Some ''HKQuantityTypeIdentifierStepCount'', sourceName = Some ''Watch'',
      health_value = Some 12, unit = Some ''count'', creationDate = Some 460,
      startDate = Some 450, endDate = Some 455\<rparr>"

definition heart_1100 :: health_record where
  "heart_1100 =
     \<lparr>type = Some ''HKQuantityTypeIdentifierHeartRate'', sourceName = Some ''Watch'',
      health_value = Some 64, unit = Some ''count/min'', creationDate = Some 1100,
      startDate = Some 1100, endDate = Some 1100\<rparr>"

definition sleep_2100 :: health_record where
  "sleep_2100 =
     \<lparr>type = Some ''HKCategoryTypeIdentifierSleepAnalysis'', sourceName = Some ''Phone'',
      health_value = None, unit = None, creationDate = Some 2100,
      startDate = Some 2100, endDate = Some 5700\<rparr>"

definition sample_health :: health_frame where
  "sample_health = \<lparr>hcolumns = parsed_columns, hrows = [heart_1100, sleep_2100, steps_450]\<rparr>"

text \<open>A loaded health frame that has its columns and no row.\<close>

definition empty_health :: health_frame where
  "empty_health = \<lparr>hcolumns = parsed_columns, hrows = []\<rparr>"

definition aligned_steps :: aligned_record where
  "aligned_steps = aligned_of ((450, steps_450), (300, reading_69_999))"

definition aligned_heart :: aligned_record where
  "aligned_heart = aligned_of ((1100, heart_1100), (900, reading_180_001))"

definition sample_merged :: "aligned_record list" where
  "sample_merged = [aligned_steps, aligned_heart]"

text \<open>The window of the first hour of the sample alignment.\<close>

definition sample_window :: window_row where
  "sample_window = aggregate_window 0 3600 sample_merged 0"

section \<open>Properties of the glucose processor\<close>

lemmas pipeline_defs =
  clean_and_process_def standardize_columns_def rename_def column_mappings_def
  glucose_columns_def consolidate_def historic_of_def glucose_value_of_def
  glucose_source_of_def valid_reading_def between_def sort_values_def
  add_glucose_metrics_def metrics_row_def rate_change_def fdiv_def trend_of_def
  range_of_def hour_of_def dayofweek_of_def

lemma boundary_frame_processed:
  "clean_and_process (Some boundary_frame) = Inr boundary_readings"
  by (simp add: boundary_frame_def libre_columns_def boundary_readings_def reading_70_def
      reading_69_999_def reading_180_def reading_180_001_def pipeline_defs)

subsection \<open>Sorting and de-duplication keep to the rows they are given\<close>

lemma set_insert_by: "set (insert_by le x xs) = insert x (set xs)"
  by (induction xs) auto

lemma set_sort_by: "set (sort_by le xs) = set xs"
  by (induction xs) (auto simp: set_insert_by)

lemma length_insert_by: "length (insert_by le x xs) = Suc (length xs)"
  by (induction xs) auto

lemma length_sort_by: "length (sort_by le xs) = length xs"
  by (induction xs) (auto simp: length_insert_by)

lemma set_drop_duplicates: "set (drop_duplicates seen rs) \<subseteq> set rs"
  by (induction rs arbitrary: seen) auto

lemma metrics_from_elem:
  "r \<in> set (metrics_from prev rs) \<Longrightarrow> \<exists>p b. b \<in> set rs \<and> r = metrics_row p b"
proof (induction rs arbitrary: prev)
  case Nil
  then show ?case by simp
next
  case (Cons a rs)
  from Cons.prems have "r = metrics_row prev a \<or> r \<in> set (metrics_from (Some a) rs)"
    by simp
  then show ?case
  proof
    assume "r = metrics_row prev a"
    then show ?thesis by auto
  next
    assume "r \<in> set (metrics_from (Some a) rs)"
    from Cons.IH[OF this] show ?thesis by auto
  qed
qed

text \<open>Every reading of a normalized series comes from a row that passed the validity
  filter.\<close>

lemma clean_and_process_elem:
  assumes "clean_and_process raw_data = Inr df" and "r \<in> set df"
  shows "\<exists>p b. valid_reading b \<and> r = metrics_row p b"
proof -
  from assms(1) obtain f w where sc: "standardize_columns raw_data = Inr (f, w)"
    by (cases "standardize_columns raw_data") (auto simp: clean_and_process_def)
  from assms(1) have
    df: "df = add_glucose_metrics (sort_values (drop_duplicates []
               (filter valid_reading (map (consolidate (columns f)) (rows f)))))"
    unfolding clean_and_process_def sc by (simp add: Let_def split: if_splits)
  from assms(2) obtain p b where
    b: "b \<in> set (sort_values (drop_duplicates []
               (filter valid_reading (map (consolidate (columns f)) (rows f)))))"
    and r: "r = metrics_row p b"
    unfolding df add_glucose_metrics_def by (blast dest: metrics_from_elem)
  from b have "b \<in> set (filter valid_reading (map (consolidate (columns f)) (rows f)))"
    using set_drop_duplicates unfolding sort_values_def set_sort_by by blast
  then have "valid_reading b" by simp
  with r show ?thesis by blast
qed

subsection \<open>Trend labels\<close>

text \<open>What the assignments of the source compute for a finite rate, and for the others.\<close>

lemma trend_of_finite:
  "trend_of (FFin x) =
     (if x > 2 then ''rising_fast'' else if 1 \<le> x then ''rising''
      else if x < - 2 then ''falling_fast'' else ''stable'')"
  by (simp add: trend_of_def)

lemma trend_of_nan: "trend_of FNaN = ''stable''"
  by (simp add: trend_of_def)

text \<open>The test \<open>between(-1, -2)\<close> asks for \<open>-1 \<le> rate\<close> and \<open>rate \<le> -2\<close>, which no rate
  passes: no reading is ever labelled falling.\<close>

lemma trend_of_never_falling: "trend_of rate \<noteq> ''falling''"
  by (cases rate) (auto simp: trend_of_def)

text \<open>
  C1. The claim: a reading whose rate of change lies in \<open>[-2, -1]\<close> mg/dL per minute has
  the trend falling. The code labels it stable: the series 100 mg/dL at \<open>t0\<close>, 92.5 mg/dL
  five minutes later has the rate \<open>-1.5\<close> on its second reading, and the trend of that
  reading is stable.
\<close>

theorem C1_falling_rate_labelled_stable:
  "map_sum id (map (\<lambda>r. (glucose_rate_change r, glucose_trend r)))
     (clean_and_process (Some falling_frame)) =
   Inr [(FNaN, ''stable''), (FFin (- 3 / 2), ''stable'')]"
  by (simp add: falling_frame_def libre_columns_def pipeline_defs)

subsection \<open>Value and source of a row\<close>

lemma glucose_value_of_priority:
  "glucose_value_of historic scan strip =
     (case historic of Some v \<Rightarrow> Some v
      | None \<Rightarrow> (case scan of Some v \<Rightarrow> Some v | None \<Rightarrow> strip))"
  by (cases historic; cases scan; cases strip) (simp_all add: glucose_value_of_def)

lemma glucose_source_of_priority:
  "glucose_source_of historic scan strip =
     (if strip \<noteq> None then ''fingerstick'' else if scan \<noteq> None then ''scan''
      else ''historic'')"
  by (simp add: glucose_source_of_def)

text \<open>
  C2. The claim: the source field names the reading type that supplied the effective
  value, so a row with a historic and a scan value takes the historic value and is
  labelled historic. The code takes the historic value 100 and labels the row scan.
\<close>

theorem C2_historic_value_labelled_scan:
  "map_sum id (map (\<lambda>r. (glucose_value r, glucose_source r)))
     (clean_and_process (Some both_frame)) =
   Inr [(Some 100, ''scan'')]"
  by (simp add: both_frame_def libre_columns_def pipeline_defs)

subsection \<open>Missing glucose columns\<close>

text \<open>\<open>standardize_columns\<close> itself returns on every loaded frame: a missing required
  column is logged only.\<close>

lemma standardize_columns_returns:
  "\<exists>df' warned. standardize_columns (Some df) = Inr (df', warned)"
  by (simp add: standardize_columns_def Let_def)

text \<open>
  C3. Normalization raises an error, and returns no result, whenever none of the historic,
  scan and fingerstick glucose columns is in the frame after the column names have been
  mapped. The error is the \<open>KeyError\<close> of the selection of the three glucose columns,
  and it names the absent columns (a frame with a historic column in mmol/L gets its
  historic column by conversion, and then the other two are absent).
\<close>

theorem C3_no_glucose_column_raises:
  assumes "''glucose_mg_dl'' \<notin> set (rename column_mappings (columns df))"
    and "''scan_glucose_mg_dl'' \<notin> set (rename column_mappings (columns df))"
    and "''strip_glucose_mg_dl'' \<notin> set (rename column_mappings (columns df))"
  shows "clean_and_process (Some df) =
           Inl (KeyError
             (if ''glucose_mmol_l'' \<in> set (rename column_mappings (columns df))
              then [''scan_glucose_mg_dl'', ''strip_glucose_mg_dl'']
              else [''glucose_mg_dl'', ''scan_glucose_mg_dl'', ''strip_glucose_mg_dl'']))"
  using assms
  by (simp add: clean_and_process_def standardize_columns_def Let_def glucose_columns_def)

theorem C3_no_glucose_column_raises_witness:
  "clean_and_process (Some notes_frame) =
     Inl (KeyError [''glucose_mg_dl'', ''scan_glucose_mg_dl'', ''strip_glucose_mg_dl''])"
proof -
  have cols: "rename column_mappings (columns notes_frame) = [''timestamp'', ''notes'']"
    by (simp add: notes_frame_def rename_def column_mappings_def)
  have h1: "''glucose_mg_dl'' \<notin> set (rename column_mappings (columns notes_frame))"
    and h2: "''scan_glucose_mg_dl'' \<notin> set (rename column_mappings (columns notes_frame))"
    and h3: "''strip_glucose_mg_dl'' \<notin> set (rename column_mappings (columns notes_frame))"
    unfolding cols by simp_all
  show ?thesis using C3_no_glucose_column_raises[OF h1 h2 h3] unfolding cols by simp
qed

subsection \<open>Range labels\<close>

lemma range_of_cases:
  "range_of (Some v) =
     (if v < 54 then ''very_low'' else if v < 70 then ''low''
      else if v \<le> 180 then ''normal'' else if v \<le> 250 then ''high'' else ''very_high'')"
  by (simp add: range_of_def)

lemma range_of_labels:
  "range_of v \<in> {''very_low'', ''low'', ''normal'', ''high'', ''very_high''}"
  by (cases v) (auto simp: range_of_def Let_def)

text \<open>
  C9. Every reading of a normalized series has a value \<open>v\<close> in \<open>[20, 600]\<close>, and its range
  category is very\_low when \<open>v < 54\<close>, low when \<open>54 \<le> v < 70\<close>, normal when
  \<open>70 \<le> v \<le> 180\<close>, high when \<open>180 < v \<le> 250\<close> and very\_high when \<open>v > 250\<close>.
\<close>

theorem C9_range_classification:
  assumes "clean_and_process raw_data = Inr df" and "r \<in> set df"
  shows "\<exists>v. glucose_value r = Some v \<and> 20 \<le> v \<and> v \<le> 600 \<and>
           (v < 54 \<longrightarrow> glucose_range r = ''very_low'') \<and>
           (54 \<le> v \<and> v < 70 \<longrightarrow> glucose_range r = ''low'') \<and>
           (70 \<le> v \<and> v \<le> 180 \<longrightarrow> glucose_range r = ''normal'') \<and>
           (180 < v \<and> v \<le> 250 \<longrightarrow> glucose_range r = ''high'') \<and>
           (250 < v \<longrightarrow> glucose_range r = ''very_high'')"
proof -
  from clean_and_process_elem[OF assms] obtain p b where
    b: "valid_reading b" and r: "r = metrics_row p b" by blast
  from b obtain v where v: "glucose_value b = Some v" "20 \<le> v" "v \<le> 600"
    by (auto simp: valid_reading_def between_def split: option.splits)
  have "glucose_value r = Some v" "glucose_range r = range_of (Some v)"
    using r v(1) by (simp_all add: metrics_row_def Let_def)
  then show ?thesis using v(2,3) by (auto simp: range_of_cases)
qed

theorem C9_range_classification_witness:
  "clean_and_process (Some boundary_frame) = Inr boundary_readings \<and>
   reading_70 \<in> set boundary_readings \<and> reading_69_999 \<in> set boundary_readings \<and>
   reading_180 \<in> set boundary_readings \<and> reading_180_001 \<in> set boundary_readings \<and>
   glucose_value reading_70 = Some 70 \<and> glucose_range reading_70 = ''normal'' \<and>
   glucose_value reading_69_999 = Some 69.999 \<and> glucose_range reading_69_999 = ''low'' \<and>
   glucose_value reading_180 = Some 180 \<and> glucose_range reading_180 = ''normal'' \<and>
   glucose_value reading_180_001 = Some 180.001 \<and> glucose_range reading_180_001 = ''high''"
proof -
  note p = boundary_frame_processed
  have m: "reading_70 \<in> set boundary_readings" "reading_69_999 \<in> set boundary_readings"
    "reading_180 \<in> set boundary_readings" "reading_180_001 \<in> set boundary_readings"
    by (simp_all add: boundary_readings_def)
  have "glucose_value reading_70 = Some 70 \<and> glucose_range reading_70 = ''normal''"
    using C9_range_classification[OF p m(1)] by (auto simp: reading_70_def)
  moreover have
    "glucose_value reading_69_999 = Some 69.999 \<and> glucose_range reading_69_999 = ''low''"
    using C9_range_classification[OF p m(2)] by (auto simp: reading_69_999_def)
  moreover have "glucose_value reading_180 = Some 180 \<and> glucose_range reading_180 = ''normal''"
    using C9_range_classification[OF p m(3)] by (auto simp: reading_180_def)
  moreover have
    "glucose_value reading_180_001 = Some 180.001 \<and> glucose_range reading_180_001 = ''high''"
    using C9_range_classification[OF p m(4)] by (auto simp: reading_180_001_def)
  ultimately show ?thesis using p m by simp
qed

subsection \<open>Time in range\<close>

lemma count_range_partition:
  assumes "\<And>r. r \<in> set df \<Longrightarrow>
     glucose_range r \<in> {''very_low'', ''low'', ''normal'', ''high'', ''very_high''}"
  shows "count_range ''very_low'' df + count_range ''low'' df + count_range ''normal'' df
         + count_range ''high'' df + count_range ''very_high'' df = length df"
  using assms
proof (induction df)
  case Nil
  then show ?case by (simp add: count_range_def)
next
  case (Cons a df)
  have a: "glucose_range a \<in> {''very_low'', ''low'', ''normal'', ''high'', ''very_high''}"
    using Cons.prems by simp
  have ih: "count_range ''very_low'' df + count_range ''low'' df + count_range ''normal'' df
         + count_range ''high'' df + count_range ''very_high'' df = length df"
    using Cons by simp
  from a ih show ?case by (auto simp: count_range_def)
qed

lemma count_range_le: "count_range c df \<le> length df"
  by (simp add: count_range_def)

lemma processed_range_labels:
  assumes "clean_and_process raw_data = Inr df" and "r \<in> set df"
  shows "glucose_range r \<in> {''very_low'', ''low'', ''normal'', ''high'', ''very_high''}"
proof -
  from clean_and_process_elem[OF assms] obtain p b where r: "r = metrics_row p b" by blast
  have "glucose_range r = range_of (glucose_value b)"
    unfolding r by (simp add: metrics_row_def Let_def)
  then show ?thesis using range_of_labels by simp
qed

subsection \<open>Rounded percentages\<close>

lemma round_even_bounds: "\<lfloor>m\<rfloor> \<le> round_even m \<and> round_even m \<le> \<lceil>m\<rceil>"
proof -
  have "\<lfloor>m\<rfloor> + 1 \<le> \<lceil>m\<rceil>" if "m - of_int \<lfloor>m\<rfloor> \<ge> 1 / 2"
  proof -
    from that have "of_int \<lfloor>m\<rfloor> < m" by simp
    then have "\<lfloor>m\<rfloor> < \<lceil>m\<rceil>" by (simp add: less_ceiling_iff)
    then show ?thesis by simp
  qed
  moreover have "\<lfloor>m\<rfloor> \<le> \<lceil>m\<rceil>" by (rule floor_le_ceiling)
  ultimately show ?thesis
    by (auto simp: round_even_def Let_def not_less)
qed

lemma double_round_nonneg: "0 \<le> x \<Longrightarrow> 0 \<le> double_round x"
proof (cases "x = 0")
  case True
  then show ?thesis by (simp add: double_round_def)
next
  case False
  assume "0 \<le> x"
  define e where "e = \<lfloor>log 2 \<bar>x\<bar>\<rfloor> - 52"
  have "0 \<le> x / 2 powi e" using \<open>0 \<le> x\<close> by simp
  then have "0 \<le> \<lfloor>x / 2 powi e\<rfloor>" by simp
  with round_even_bounds[of "x / 2 powi e"] have "0 \<le> round_even (x / 2 powi e)" by linarith
  then have "0 \<le> of_int (round_even (x / 2 powi e)) * (2::real) powi e" by simp
  then show ?thesis using False by (simp add: double_round_def e_def Let_def)
qed

lemma double_round_le:
  assumes "0 < x" and "x \<le> c" and "c = of_int N * 2 powi (\<lfloor>log 2 x\<rfloor> - 52)"
  shows "double_round x \<le> c"
proof -
  define e where "e = \<lfloor>log 2 x\<rfloor> - 52"
  have p: "0 < (2::real) powi e" by simp
  have "x / 2 powi e \<le> c / 2 powi e" using assms(2) p by (simp add: divide_right_mono)
  also have "c / 2 powi e = of_int N" using assms(3) p by (simp add: e_def)
  finally have "\<lceil>x / 2 powi e\<rceil> \<le> N" by (simp add: ceiling_le_iff)
  with round_even_bounds[of "x / 2 powi e"] have "round_even (x / 2 powi e) \<le> N" by linarith
  then have "of_int (round_even (x / 2 powi e)) * (2::real) powi e \<le> of_int N * 2 powi e"
    using p by (simp add: mult_right_mono)
  then show ?thesis using assms(1,3) by (simp add: double_round_def e_def Let_def)
qed

lemma multiple_of_small_power:
  assumes "e \<le> 0"
  shows "real_of_int (M * 2 ^ nat (- e)) * 2 powi e = of_int M"
proof -
  have "(2::real) powi e = inverse (2 ^ nat (- e))"
    using assms by (simp add: power_int_def power_one_over inverse_eq_divide)
  then show ?thesis by simp
qed

lemma double_round_le_const:
  assumes "0 \<le> x" and "x \<le> of_int M" and "of_int M < (2::real) ^ 53" and "0 \<le> M"
  shows "double_round x \<le> of_int M"
proof (cases "x = 0")
  case True
  then show ?thesis using assms(4) by (simp add: double_round_def)
next
  case False
  then have pos: "0 < x" using assms(1) by simp
  have "x < 2 powr 53" using assms(2,3) by (simp add: powr_realpow)
  then have "log 2 x < 53" using pos by (simp add: log_less_iff)
  then have "\<lfloor>log 2 x\<rfloor> - 52 \<le> 0" by (simp add: floor_le_iff)
  from multiple_of_small_power[OF this, of M]
  show ?thesis by (intro double_round_le[OF pos assms(2)]) (rule sym)
qed

lemma percent_bounds:
  assumes "0 < n" and "k \<le> n"
  shows "0 \<le> percent k n \<and> percent k n \<le> 100"
proof -
  define q where "q = double_round (real k / real n)"
  have "0 \<le> real k / real n" "real k / real n \<le> of_int 1" using assms by simp_all
  then have q: "0 \<le> q" "q \<le> 1"
    using double_round_nonneg double_round_le_const[of "real k / real n" 1]
    by (simp_all add: q_def)
  then have "0 \<le> q * 100" "q * 100 \<le> of_int 100" by simp_all
  then have "0 \<le> double_round (q * 100)" "double_round (q * 100) \<le> of_int 100"
    using double_round_nonneg double_round_le_const[of "q * 100" 100] by simp_all
  then show ?thesis by (simp add: percent_def q_def)
qed

lemma double_round_dyadic: "\<exists>(N::int) (k::nat). double_round y * 2 ^ k = of_int N"
proof (cases "y = 0")
  case True
  then have "double_round y * 2 ^ 0 = of_int 0" by (simp add: double_round_def)
  then show ?thesis by blast
next
  case False
  define e where "e = \<lfloor>log 2 \<bar>y\<bar>\<rfloor> - 52"
  define r where "r = round_even (y / 2 powi e)"
  have d: "double_round y = of_int r * 2 powi e"
    using False by (simp add: double_round_def e_def r_def Let_def)
  show ?thesis
  proof (cases "0 \<le> e")
    case True
    then have "(2::real) powi e = of_int (2 ^ nat e)" by (simp add: power_int_def)
    then have "double_round y * 2 ^ 0 = of_int (r * 2 ^ nat e)" unfolding d by simp
    then show ?thesis by blast
  next
    case False
    then have "(2::real) powi e * 2 ^ nat (- e) = 1"
      by (simp add: power_int_def power_one_over)
    then have "double_round y * 2 ^ nat (- e) = of_int r"
      unfolding d by (simp add: mult.assoc)
    then show ?thesis by blast
  qed
qed

lemma pow2_mod3: "(2::int) ^ k mod 3 = 1 \<or> (2::int) ^ k mod 3 = 2"
proof (induction k)
  case 0
  then show ?case by simp
next
  case (Suc k)
  have "(2::int) ^ Suc k mod 3 = (2 * (2 ^ k mod 3)) mod 3"
    by (simp add: mod_mult_right_eq)
  with Suc show ?case by auto
qed

lemma three_doubles_not_100: "3 * double_round y \<noteq> 100"
proof
  assume a: "3 * double_round y = 100"
  from double_round_dyadic obtain N :: int and k :: nat where
    d: "double_round y * 2 ^ k = of_int N" by blast
  from a have "3 * (double_round y * 2 ^ k) = 100 * 2 ^ k" by simp
  then have "real_of_int (3 * N) = real_of_int (100 * 2 ^ k)" unfolding d by simp
  then have "3 * N = 100 * 2 ^ k" by (simp only: of_int_eq_iff)
  then have "(100 * 2 ^ k) mod 3 = (0::int)" by (metis mod_mult_self1_is_0)
  moreover have "(100 * 2 ^ k) mod 3 = ((100 mod 3) * (2 ^ k mod 3)) mod (3::int)"
    by (rule mod_mult_eq[symmetric])
  ultimately show False using pow2_mod3[of k] by auto
qed

lemma double_round_binade:
  assumes "2 powi k \<le> x" and "x < 2 powi (k + 1)"
  shows "double_round x = of_int (round_even (x / 2 powi (k - 52))) * 2 powi (k - 52)"
proof -
  have pos: "0 < x" using assms(1) by (rule less_le_trans[rotated]) simp
  have a: "(2::real) powr real_of_int k = 2 powi k"
    by (rule powr_real_of_int') simp_all
  have "real_of_int k + 1 = real_of_int (k + 1)" by simp
  then have b: "(2::real) powr (real_of_int k + 1) = 2 powi (k + 1)"
    using powr_real_of_int'[of 2 "k + 1"] by simp
  have "2 powr (real_of_int k) \<le> x \<and> x < 2 powr (real_of_int k + 1)"
    unfolding a b using assms by simp
  then have "\<lfloor>log 2 x\<rfloor> = k" using pos floor_log_eq_powr_iff[of x 2 k] by simp
  then show ?thesis using pos by (simp add: double_round_def Let_def)
qed

lemma double_round_third: "double_round (1 / 3) = 6004799503160661 / 18014398509481984"
proof -
  have "double_round (1 / 3) =
      of_int (round_even ((1 / 3) / 2 powi (- 2 - 52))) * 2 powi (- 2 - 52)"
    by (rule double_round_binade) (simp_all add: power_int_minus)
  also have "(1 / 3) / (2::real) powi (- 2 - 52) = 18014398509481984 / 3"
    by (simp add: power_int_minus)
  also have "round_even (18014398509481984 / 3) = 6004799503160661"
    by (simp add: round_even_def Let_def)
  finally show ?thesis by (simp add: power_int_minus)
qed

lemma double_round_third_100:
  "double_round (6004799503160661 / 18014398509481984 * 100) =
     2345624805922133 / 70368744177664"
proof -
  have "double_round (6004799503160661 / 18014398509481984 * 100) =
      of_int (round_even ((6004799503160661 / 18014398509481984 * 100) / 2 powi (5 - 52)))
        * 2 powi (5 - 52)"
    by (rule double_round_binade) (simp_all add: power_int_minus)
  also have "(6004799503160661 / 18014398509481984 * 100) / (2::real) powi (5 - 52) =
      150119987579016525 / 32"
    by (simp add: power_int_minus)
  also have "round_even (150119987579016525 / 32) = 4691249611844266"
    by (simp add: round_even_def Let_def)
  finally show ?thesis by (simp add: power_int_minus)
qed

text \<open>A number that has a significand of at most 53 bits is its own rounding.\<close>

lemma double_round_exact:
  assumes "2 powi k \<le> x" and "x < 2 powi (k + 1)" and "x / 2 powi (k - 52) = of_int N"
  shows "double_round x = x"
proof -
  have "round_even (of_int N) = N" by (simp add: round_even_def Let_def)
  then have "double_round x = of_int N * 2 powi (k - 52)"
    unfolding double_round_binade[OF assms(1,2)] assms(3) by simp
  also have "\<dots> = x" unfolding assms(3)[symmetric] by simp
  finally show ?thesis .
qed

lemma percent_third:
  "real k / real n = 1 / 3 \<Longrightarrow> percent k n = 2345624805922133 / 70368744177664"
proof -
  assume q: "real k / real n = 1 / 3"
  have "percent k n = double_round (double_round (1 / 3) * 100)"
    by (simp only: percent_def q)
  also have "\<dots> = double_round (6004799503160661 / 18014398509481984 * 100)"
    by (simp only: double_round_third)
  also have "\<dots> = 2345624805922133 / 70368744177664"
    by (rule double_round_third_100)
  finally show ?thesis .
qed

lemma percent_quarter: "real k / real n = 1 / 4 \<Longrightarrow> percent k n = 25"
proof -
  assume q: "real k / real n = 1 / 4"
  have a: "double_round (1 / 4) = 1 / 4"
    by (rule double_round_exact[of "- 2" _ 4503599627370496]) (simp_all add: power_int_minus)
  have b: "double_round 25 = 25"
    by (rule double_round_exact[of 4 _ 7036874417766400]) (simp_all add: power_int_minus)
  show ?thesis by (simp add: percent_def q a b)
qed

lemma percent_half: "real k / real n = 1 / 2 \<Longrightarrow> percent k n = 50"
proof -
  assume q: "real k / real n = 1 / 2"
  have a: "double_round (1 / 2) = 1 / 2"
    by (rule double_round_exact[of "- 1" _ 4503599627370496]) (simp_all add: power_int_minus)
  have b: "double_round 50 = 50"
    by (rule double_round_exact[of 5 _ 7036874417766400]) (simp_all add: power_int_minus)
  show ?thesis by (simp add: percent_def q a b)
qed

lemma percent_0: "percent 0 n = 0"
  by (simp add: percent_def double_round_def)

lemma exact_percentages:
  assumes "0 < n" and "a + b + c + d + e = n"
  shows "real a / real n * 100 + real b / real n * 100 + real c / real n * 100
         + real d / real n * 100 + real e / real n * 100 = 100"
proof -
  have "real (a + b + c + d + e) / real n * 100 = 100"
    unfolding assms(2) using assms(1) by simp
  then show ?thesis by (simp add: add_divide_distrib distrib_right)
qed

text \<open>
  C10, as the claim states it: the five percentages add up to exactly 100. For the series
  of one low, one normal and one high reading each of the three percentages is the double
  nearest to \<open>1 / 3 * 100\<close> (the quotient is rounded before the product), and the five
  percentages add up to \<open>100 - 1 / 2 ^ 46\<close>.
\<close>

theorem C10_sum_not_100_counterexample:
  "map_sum id (take 5) (process_and_stats (Some thirds_frame)) =
     Inr [(''time_very_low_percent'', FFin 0),
          (''time_low_percent'', FFin (2345624805922133 / 70368744177664)),
          (''time_in_range_percent'', FFin (2345624805922133 / 70368744177664)),
          (''time_high_percent'', FFin (2345624805922133 / 70368744177664)),
          (''time_very_high_percent'', FFin 0)] \<and>
   (0::real) + 2345624805922133 / 70368744177664 + 2345624805922133 / 70368744177664
     + 2345624805922133 / 70368744177664 + 0 = 100 - 1 / 2 ^ 46 \<and>
   (0::real) + 2345624805922133 / 70368744177664 + 2345624805922133 / 70368744177664
     + 2345624805922133 / 70368744177664 + 0 \<noteq> 100"
proof -
  have p: "map_sum id (map glucose_range) (clean_and_process (Some thirds_frame)) =
      Inr [''low'', ''normal'', ''high'']"
    by (simp add: thirds_frame_def libre_columns_def pipeline_defs)
  then obtain df where df: "clean_and_process (Some thirds_frame) = Inr df"
    and r: "map glucose_range df = [''low'', ''normal'', ''high'']"
    by (cases "clean_and_process (Some thirds_frame)") auto
  from r have len: "length df = 3" by (metis length_map length_Cons list.size(3) numeral_3_eq_3)
  have cnt: "count_range c df = count_list (map glucose_range df) c" for c
    unfolding count_range_def by (induction df) auto
  have "map_sum id (take 5) (get_time_in_range_stats (Some df)) =
     Inr [(''time_very_low_percent'', FFin 0),
          (''time_low_percent'', FFin (2345624805922133 / 70368744177664)),
          (''time_in_range_percent'', FFin (2345624805922133 / 70368744177664)),
          (''time_high_percent'', FFin (2345624805922133 / 70368744177664)),
          (''time_very_high_percent'', FFin 0)]"
    by (simp add: get_time_in_range_stats_def Let_def len cnt r percent_0 percent_third)
  then show ?thesis by (simp add: process_and_stats_def df)
qed

text \<open>
  C10, amended: for a non-empty normalized series each of the five time-in-range
  percentages is in \<open>[0, 100]\<close> and is the float value of \<open>count / total * 100\<close> for the count
  of one range category; the five counts add up to the number of readings, since every
  reading has exactly one of the five categories, so that the exact quotients add up to
  100 (the percentages are their roundings, and need not add up to exactly 100).
\<close>

theorem C10_percentages_partition:
  assumes "clean_and_process raw_data = Inr df" and "df \<noteq> []"
  shows "\<exists>stats.
           get_time_in_range_stats (Some df) = Inr stats \<and>
           map_of stats ''time_very_low_percent'' =
             Some (FFin (percent (count_range ''very_low'' df) (length df))) \<and>
           map_of stats ''time_low_percent'' =
             Some (FFin (percent (count_range ''low'' df) (length df))) \<and>
           map_of stats ''time_in_range_percent'' =
             Some (FFin (percent (count_range ''normal'' df) (length df))) \<and>
           map_of stats ''time_high_percent'' =
             Some (FFin (percent (count_range ''high'' df) (length df))) \<and>
           map_of stats ''time_very_high_percent'' =
             Some (FFin (percent (count_range ''very_high'' df) (length df))) \<and>
           (\<forall>c. 0 \<le> percent (count_range c df) (length df) \<and>
                percent (count_range c df) (length df) \<le> 100) \<and>
           count_range ''very_low'' df + count_range ''low'' df + count_range ''normal'' df
             + count_range ''high'' df + count_range ''very_high'' df = length df \<and>
           real (count_range ''very_low'' df) / real (length df) * 100
             + real (count_range ''low'' df) / real (length df) * 100
             + real (count_range ''normal'' df) / real (length df) * 100
             + real (count_range ''high'' df) / real (length df) * 100
             + real (count_range ''very_high'' df) / real (length df) * 100 = 100"
proof -
  have pos: "0 < length df" using assms(2) by simp
  have part: "count_range ''very_low'' df + count_range ''low'' df + count_range ''normal'' df
         + count_range ''high'' df + count_range ''very_high'' df = length df"
    by (rule count_range_partition) (rule processed_range_labels[OF assms(1)])
  note exact = exact_percentages[OF pos part]
  have bnd: "\<forall>c. 0 \<le> percent (count_range c df) (length df) \<and>
                percent (count_range c df) (length df) \<le> 100"
    using percent_bounds[OF pos count_range_le] by blast
  define stats where "stats =
     [(''time_very_low_percent'', FFin (percent (count_range ''very_low'' df) (length df))),
      (''time_low_percent'', FFin (percent (count_range ''low'' df) (length df))),
      (''time_in_range_percent'', FFin (percent (count_range ''normal'' df) (length df))),
      (''time_high_percent'', FFin (percent (count_range ''high'' df) (length df))),
      (''time_very_high_percent'', FFin (percent (count_range ''very_high'' df) (length df))),
      (''average_glucose'', mean (List.map_filter glucose_value df)),
      (''glucose_std'', std (List.map_filter glucose_value df)),
      (''coefficient_variation'',
         (case (std (List.map_filter glucose_value df), mean (List.map_filter glucose_value df)) of
            (FFin s, FFin m) \<Rightarrow> fscale (fdiv s m) 100
          | _ \<Rightarrow> FNaN))]"
  have st: "get_time_in_range_stats (Some df) = Inr stats"
    using assms(2) by (simp add: get_time_in_range_stats_def Let_def stats_def)
  have m: "map_of stats ''time_very_low_percent'' =
             Some (FFin (percent (count_range ''very_low'' df) (length df)))"
    "map_of stats ''time_low_percent'' =
             Some (FFin (percent (count_range ''low'' df) (length df)))"
    "map_of stats ''time_in_range_percent'' =
             Some (FFin (percent (count_range ''normal'' df) (length df)))"
    "map_of stats ''time_high_percent'' =
             Some (FFin (percent (count_range ''high'' df) (length df)))"
    "map_of stats ''time_very_high_percent'' =
             Some (FFin (percent (count_range ''very_high'' df) (length df)))"
    by (simp_all add: stats_def)
  from st m bnd part exact show ?thesis by blast
qed

theorem C10_percentages_partition_witness:
  "clean_and_process (Some boundary_frame) = Inr boundary_readings \<and>
   boundary_readings \<noteq> [] \<and>
   map_sum id (take 5) (get_time_in_range_stats (Some boundary_readings)) =
     Inr [(''time_very_low_percent'', FFin 0), (''time_low_percent'', FFin 25),
          (''time_in_range_percent'', FFin 50), (''time_high_percent'', FFin 25),
          (''time_very_high_percent'', FFin 0)] \<and>
   count_range ''very_low'' boundary_readings + count_range ''low'' boundary_readings
     + count_range ''normal'' boundary_readings + count_range ''high'' boundary_readings
     + count_range ''very_high'' boundary_readings = length boundary_readings \<and>
   (0::real) + 25 + 50 + 25 + 0 = 100"
proof -
  note p = boundary_frame_processed
  have ne: "boundary_readings \<noteq> []" by (simp add: boundary_readings_def)
  have ev: "map_sum id (take 5) (get_time_in_range_stats (Some boundary_readings)) =
     Inr [(''time_very_low_percent'', FFin 0), (''time_low_percent'', FFin 25),
          (''time_in_range_percent'', FFin 50), (''time_high_percent'', FFin 25),
          (''time_very_high_percent'', FFin 0)]"
    by (simp add: get_time_in_range_stats_def Let_def count_range_def boundary_readings_def
        reading_70_def reading_69_999_def reading_180_def reading_180_001_def
        percent_0 percent_quarter percent_half)
  from C10_percentages_partition[OF p ne] have
    "count_range ''very_low'' boundary_readings + count_range ''low'' boundary_readings
     + count_range ''normal'' boundary_readings + count_range ''high'' boundary_readings
     + count_range ''very_high'' boundary_readings = length boundary_readings"
    by blast
  with p ne ev show ?thesis by simp
qed

section \<open>Properties of the data merger\<close>

subsection \<open>Sorting\<close>

lemma sorted_wrt_insert_by:
  assumes total: "\<And>a b. le a b \<or> le b a"
    and trans: "\<And>a b c. le a b \<Longrightarrow> le b c \<Longrightarrow> le a c"
  shows "sorted_wrt le xs \<Longrightarrow> sorted_wrt le (insert_by le x xs)"
proof (induction xs)
  case Nil
  then show ?case by simp
next
  case (Cons y ys)
  show ?case
  proof (cases "le x y")
    case True
    then have "\<forall>z\<in>set ys. le x z" using Cons.prems trans by auto
    with True Cons.prems show ?thesis by simp
  next
    case False
    then have "le y x" using total by blast
    with False Cons show ?thesis by (auto simp: set_insert_by)
  qed
qed

lemma sorted_wrt_sort_by:
  assumes total: "\<And>a b. le a b \<or> le b a"
    and trans: "\<And>a b c. le a b \<Longrightarrow> le b c \<Longrightarrow> le a c"
  shows "sorted_wrt le (sort_by le xs)"
  by (induction xs) (simp_all add: sorted_wrt_insert_by[OF total trans])

lemma ts_le_total: "ts_le a b \<or> ts_le b a"
  by (cases a; cases b) auto

lemma ts_le_trans: "ts_le a b \<Longrightarrow> ts_le b c \<Longrightarrow> ts_le a c"
  by (cases a; cases b; cases c) auto

lemma sorted_wrt_sort_by_ts:
  "sorted_wrt (\<lambda>a b. ts_le (key a) (key b)) (sort_by (\<lambda>a b. ts_le (key a) (key b)) xs)"
proof (rule sorted_wrt_sort_by)
  show "ts_le (key a) (key b) \<or> ts_le (key b) (key a)" for a b
    by (rule ts_le_total)
  show "ts_le (key a) (key b) \<Longrightarrow> ts_le (key b) (key c) \<Longrightarrow> ts_le (key a) (key c)" for a b c
    by (rule ts_le_trans)
qed

subsection \<open>Keys\<close>

lemma keyed_Some:
  "keyed key xs = Some ys \<Longrightarrow> map snd ys = xs \<and> (\<forall>p\<in>set ys. key (snd p) = Some (fst p))"
proof (induction xs arbitrary: ys)
  case Nil
  then show ?case by simp
next
  case (Cons x xs)
  then show ?case by (auto split: option.splits)
qed

lemma keyed_sorted:
  assumes "keyed key xs = Some ys" and "sorted_wrt (\<lambda>a b. ts_le (key a) (key b)) xs"
  shows "sorted_wrt (\<lambda>p q. fst p \<le> fst q) ys"
proof -
  from keyed_Some[OF assms(1)] have m: "map snd ys = xs"
    and k: "\<And>p. p \<in> set ys \<Longrightarrow> key (snd p) = Some (fst p)" by auto
  from assms(2) have "sorted_wrt (\<lambda>p q. ts_le (key (snd p)) (key (snd q))) ys"
    unfolding m[symmetric] sorted_wrt_map .
  then show ?thesis
    by (rule sorted_wrt_mono_rel[rotated]) (simp add: k)
qed

subsection \<open>Searching a sorted list\<close>

lemma takeWhile_sorted_mem:
  assumes "sorted_wrt R xs" and "x \<in> set xs" and "P x"
    and down: "\<And>a b. R a b \<Longrightarrow> P b \<Longrightarrow> P a"
  shows "x \<in> set (takeWhile P xs)"
  using assms(1,2)
proof (induction xs)
  case Nil
  then show ?case by simp
next
  case (Cons y ys)
  show ?case
  proof (cases "x = y")
    case True
    with assms(3) show ?thesis by simp
  next
    case False
    with Cons.prems have x: "x \<in> set ys" and "R y x" by auto
    with assms(3) down have "P y" by blast
    with Cons x show ?thesis by simp
  qed
qed

lemma sorted_wrt_last:
  "sorted_wrt R xs \<Longrightarrow> x \<in> set xs \<Longrightarrow> x = last xs \<or> R x (last xs)"
  by (induction xs) auto

lemma rev_Cons_last: "rev xs = g # rest \<Longrightarrow> xs \<noteq> [] \<and> g = last xs"
  by (cases xs rule: rev_cases) auto

subsection \<open>What a search returns\<close>

lemma asof_backward_SomeD:
  assumes "asof_backward t right tolerance = Some g"
  shows "g \<in> set right \<and> fst g \<le> t \<and> t - fst g \<le> tolerance"
proof -
  from assms obtain rest where r: "rev (takeWhile (\<lambda>g. fst g \<le> t) right) = g # rest"
    and tol: "t - fst g \<le> tolerance"
    by (auto simp: asof_backward_def split: list.splits if_splits)
  from r have "g \<in> set (takeWhile (\<lambda>g. fst g \<le> t) right)"
    by (metis list.set_intros(1) set_rev)
  from set_takeWhileD[OF this] tol show ?thesis by simp
qed

lemma asof_forward_SomeD:
  assumes "asof_forward t right tolerance = Some g"
  shows "g \<in> set right \<and> t \<le> fst g \<and> fst g - t \<le> tolerance"
proof -
  from assms obtain rest where r: "rev (takeWhile (\<lambda>g. fst g \<ge> t) (rev right)) = g # rest"
    and tol: "fst g - t \<le> tolerance"
    by (auto simp: asof_forward_def split: list.splits if_splits)
  from r have "g \<in> set (takeWhile (\<lambda>g. fst g \<ge> t) (rev right))"
    by (metis list.set_intros(1) set_rev)
  from set_takeWhileD[OF this] tol show ?thesis by simp
qed

lemma asof_nearest_SomeD:
  assumes "asof_nearest t right tolerance = Some g"
  shows "g \<in> set right \<and> \<bar>t - fst g\<bar> \<le> tolerance"
proof -
  from assms have "asof_backward t right tolerance = Some g \<or> asof_forward t right tolerance = Some g"
    by (auto simp: asof_nearest_def split: option.splits if_splits)
  then show ?thesis
  proof
    assume "asof_backward t right tolerance = Some g"
    from asof_backward_SomeD[OF this] show ?thesis by simp
  next
    assume "asof_forward t right tolerance = Some g"
    from asof_forward_SomeD[OF this] show ?thesis by simp
  qed
qed

lemma asof_backward_tie:
  assumes s: "sorted_wrt (\<lambda>p q. fst p \<le> fst q) right"
    and x: "x \<in> set right" "fst x = t - d"
    and d: "0 \<le> d" "d \<le> tolerance"
    and near: "\<And>p. p \<in> set right \<Longrightarrow> d \<le> \<bar>t - fst p\<bar>"
  shows "\<exists>b. asof_backward t right tolerance = Some b \<and> fst b = t - d"
proof -
  let ?B = "takeWhile (\<lambda>g. fst g \<le> t) right"
  have xB: "x \<in> set ?B"
    by (rule takeWhile_sorted_mem[OF s x(1)]) (use x(2) d(1) in auto)
  then have ne: "?B \<noteq> []" by auto
  then obtain rest where r: "rev ?B = last ?B # rest"
    by (cases ?B rule: rev_cases) auto
  have "last ?B \<in> set ?B" using ne by simp
  from set_takeWhileD[OF this] have lb: "last ?B \<in> set right" "fst (last ?B) \<le> t" by auto
  from near[OF lb(1)] lb(2) have up: "fst (last ?B) \<le> t - d" by simp
  have "sorted_wrt (\<lambda>p q. fst p \<le> fst q) ?B" using s by simp
  from sorted_wrt_last[OF this xB] have "fst x \<le> fst (last ?B)" by auto
  with up x(2) have eq: "fst (last ?B) = t - d" by simp
  have "asof_backward t right tolerance = Some (last ?B)"
    unfolding asof_backward_def r using eq d(2) by simp
  with eq show ?thesis by blast
qed

lemma asof_forward_tie:
  assumes s: "sorted_wrt (\<lambda>p q. fst p \<le> fst q) right"
    and x: "x \<in> set right" "fst x = t + d"
    and d: "0 \<le> d" "d \<le> tolerance"
    and near: "\<And>p. p \<in> set right \<Longrightarrow> d \<le> \<bar>t - fst p\<bar>"
  shows "\<exists>f. asof_forward t right tolerance = Some f \<and> fst f = t + d"
proof -
  let ?F = "takeWhile (\<lambda>g. fst g \<ge> t) (rev right)"
  have s': "sorted_wrt (\<lambda>p q. fst p \<ge> fst q) (rev right)"
    using s by (simp add: sorted_wrt_rev)
  have xF: "x \<in> set ?F"
    by (rule takeWhile_sorted_mem[OF s']) (use x d(1) in auto)
  then have ne: "?F \<noteq> []" by auto
  then obtain rest where r: "rev ?F = last ?F # rest"
    by (cases ?F rule: rev_cases) auto
  have "last ?F \<in> set ?F" using ne by simp
  from set_takeWhileD[OF this] have lf: "last ?F \<in> set right" "t \<le> fst (last ?F)" by auto
  from near[OF lf(1)] lf(2) have lo: "t + d \<le> fst (last ?F)" by simp
  have "sorted_wrt (\<lambda>p q. fst p \<ge> fst q) ?F" using s' by simp
  from sorted_wrt_last[OF this xF] have "fst (last ?F) \<le> fst x" by auto
  with lo x(2) have eq: "fst (last ?F) = t + d" by simp
  have "asof_forward t right tolerance = Some (last ?F)"
    unfolding asof_forward_def r using eq d(2) by simp
  with eq show ?thesis by blast
qed

lemma asof_nearest_tie:
  assumes s: "sorted_wrt (\<lambda>p q. fst p \<le> fst q) right"
    and x: "x \<in> set right" "fst x = t - d"
    and y: "y \<in> set right" "fst y = t + d"
    and d: "0 \<le> d" "d \<le> tolerance"
    and near: "\<And>p. p \<in> set right \<Longrightarrow> d \<le> \<bar>t - fst p\<bar>"
  shows "\<exists>b. asof_nearest t right tolerance = Some b \<and> fst b = t - d"
proof -
  from asof_backward_tie[OF s x d near] obtain b where
    b: "asof_backward t right tolerance = Some b" "fst b = t - d" by blast
  from asof_forward_tie[OF s y d near] obtain f where
    f: "asof_forward t right tolerance = Some f" "fst f = t + d" by blast
  have "asof_nearest t right tolerance = Some b"
    using b f by (simp add: asof_nearest_def)
  with b(2) show ?thesis by blast
qed

lemma keyed_mem:
  assumes "keyed key xs = Some ys"
  shows "(t, x) \<in> set ys \<longleftrightarrow> x \<in> set xs \<and> key x = Some t"
proof
  assume m: "(t, x) \<in> set ys"
  from keyed_Some[OF assms] have "map snd ys = xs" and "key (snd (t, x)) = Some (fst (t, x))"
    using m by blast+
  then show "x \<in> set xs \<and> key x = Some t" using m by force
next
  assume a: "x \<in> set xs \<and> key x = Some t"
  from keyed_Some[OF assms] have ms: "map snd ys = xs"
    and k: "\<And>p. p \<in> set ys \<Longrightarrow> key (snd p) = Some (fst p)" by auto
  from a ms obtain p where p: "p \<in> set ys" "snd p = x" by force
  from k[OF p(1)] a p(2) have "fst p = t" by simp
  with p show "(t, x) \<in> set ys" by (metis prod.collapse)
qed

lemma dropna_glucose_set: "(h, g) \<in> set (dropna_glucose ms) \<longleftrightarrow> (h, Some g) \<in> set ms"
  by (induction ms rule: dropna_glucose.induct) auto

text \<open>The shape of a successful alignment.\<close>

lemma align_timestamps_Inr:
  assumes "align_timestamps (Some hf) (Some gs) T = Inr merged"
  shows "\<exists>l r. keyed startDate (sort_by (\<lambda>a b. ts_le (startDate a) (startDate b)) (hrows hf)) = Some l \<and>
           keyed timestamp (sort_by (\<lambda>a b. ts_le (timestamp a) (timestamp b)) gs) = Some r \<and>
           merged = map aligned_of
             (dropna_glucose (map (\<lambda>h. (h, asof_nearest (fst h) r (60 * T))) l))"
  using assms
  by (simp add: align_timestamps_def merge_asof_def Let_def
      split: if_splits option.splits)

lemma align_timestamps_elem:
  assumes "align_timestamps (Some hf) (Some gs) T = Inr merged"
  shows "\<exists>r. sorted_wrt (\<lambda>p q. fst p \<le> fst q) r \<and>
           (\<forall>u g. (u, g) \<in> set r \<longleftrightarrow> g \<in> set gs \<and> timestamp g = Some u) \<and>
           (\<forall>a. a \<in> set merged \<longleftrightarrow>
              (\<exists>t h u g. h \<in> set (hrows hf) \<and> startDate h = Some t \<and>
                 asof_nearest t r (60 * T) = Some (u, g) \<and>
                 a = aligned_of ((t, h), (u, g))))"
proof -
  from align_timestamps_Inr[OF assms] obtain l r where
    l: "keyed startDate (sort_by (\<lambda>a b. ts_le (startDate a) (startDate b)) (hrows hf)) = Some l"
    and r: "keyed timestamp (sort_by (\<lambda>a b. ts_le (timestamp a) (timestamp b)) gs) = Some r"
    and m: "merged = map aligned_of
             (dropna_glucose (map (\<lambda>h. (h, asof_nearest (fst h) r (60 * T))) l))"
    by blast
  have s: "sorted_wrt (\<lambda>p q. fst p \<le> fst q) r"
    by (rule keyed_sorted[OF r sorted_wrt_sort_by_ts])
  have rm: "(u, g) \<in> set r \<longleftrightarrow> g \<in> set gs \<and> timestamp g = Some u" for u g
    using keyed_mem[OF r] by (simp add: set_sort_by)
  have lm: "(t, h) \<in> set l \<longleftrightarrow> h \<in> set (hrows hf) \<and> startDate h = Some t" for t h
    using keyed_mem[OF l] by (simp add: set_sort_by)
  have "a \<in> set merged \<longleftrightarrow>
          (\<exists>t h u g. h \<in> set (hrows hf) \<and> startDate h = Some t \<and>
             asof_nearest t r (60 * T) = Some (u, g) \<and> a = aligned_of ((t, h), (u, g)))" for a
  proof
    assume "a \<in> set merged"
    then obtain t h u g where
      "((t, h), (u, g)) \<in> set (dropna_glucose (map (\<lambda>h. (h, asof_nearest (fst h) r (60 * T))) l))"
      and a: "a = aligned_of ((t, h), (u, g))"
      unfolding m by auto
    then have "(t, h) \<in> set l" "asof_nearest t r (60 * T) = Some (u, g)"
      by (auto simp: dropna_glucose_set)
    with a lm show "\<exists>t h u g. h \<in> set (hrows hf) \<and> startDate h = Some t \<and>
             asof_nearest t r (60 * T) = Some (u, g) \<and> a = aligned_of ((t, h), (u, g))"
      by blast
  next
    assume "\<exists>t h u g. h \<in> set (hrows hf) \<and> startDate h = Some t \<and>
             asof_nearest t r (60 * T) = Some (u, g) \<and> a = aligned_of ((t, h), (u, g))"
    then obtain t h u g where h: "(t, h) \<in> set l"
      and n: "asof_nearest t r (60 * T) = Some (u, g)"
      and a: "a = aligned_of ((t, h), (u, g))"
      using lm by blast
    from h n have "((t, h), Some (u, g)) \<in> set (map (\<lambda>h. (h, asof_nearest (fst h) r (60 * T))) l)"
      by force
    then have "((t, h), (u, g)) \<in> set (dropna_glucose (map (\<lambda>h. (h, asof_nearest (fst h) r (60 * T))) l))"
      by (simp add: dropna_glucose_set)
    then show "a \<in> set merged" unfolding m a set_map by (rule imageI)
  qed
  with s rm show ?thesis by blast
qed

lemmas align_defs = align_timestamps_def merge_asof_def asof_nearest_def asof_backward_def
  asof_forward_def

lemmas sample_defs = sample_health_def parsed_columns_def steps_450_def heart_1100_def
  sleep_2100_def boundary_readings_def reading_70_def reading_69_999_def reading_180_def
  reading_180_001_def

text \<open>The sample series aligned with a tolerance of 15 minutes: the steps are matched
  with the reading at 300 s, the heart rate with the reading at 900 s, and the sleep
  record is not in the result.\<close>

lemma sample_aligned:
  "align_timestamps (Some sample_health) (Some boundary_readings) 15 = Inr sample_merged"
  by (simp add: align_defs sample_defs sample_merged_def aligned_steps_def aligned_heart_def)

subsection \<open>Tolerance\<close>

text \<open>
  C4. For every tolerance \<open>T\<close>, every record that the alignment emits has
  \<open>|time_diff_minutes| \<le> T\<close>, and it joins a health record of the input with a glucose
  reading of the input (its time difference is that of their two timestamps, in minutes).
  A health record all of whose glucose readings are farther than \<open>T\<close> minutes away is in
  no record of the result.
\<close>

theorem C4_within_tolerance:
  assumes "align_timestamps (Some hf) (Some gs) T = Inr merged"
  shows "(\<forall>a\<in>set merged.
            \<bar>time_diff_minutes a\<bar> \<le> real_of_int T \<and>
            time_diff_minutes a = real_of_int (health_timestamp a - glucose_timestamp a) / 60 \<and>
            health a \<in> set (hrows hf) \<and> startDate (health a) = Some (health_timestamp a) \<and>
            reading a \<in> set gs \<and> timestamp (reading a) = Some (glucose_timestamp a)) \<and>
         (\<forall>h\<in>set (hrows hf).
            (\<forall>g\<in>set gs. \<forall>t u. startDate h = Some t \<longrightarrow> timestamp g = Some u \<longrightarrow>
               60 * T < \<bar>t - u\<bar>) \<longrightarrow>
            (\<forall>a\<in>set merged. health a \<noteq> h))"
proof -
  from align_timestamps_elem[OF assms] obtain r where
    rm: "\<And>u g. (u, g) \<in> set r \<longleftrightarrow> g \<in> set gs \<and> timestamp g = Some u"
    and mm: "\<And>a. a \<in> set merged \<longleftrightarrow>
              (\<exists>t h u g. h \<in> set (hrows hf) \<and> startDate h = Some t \<and>
                 asof_nearest t r (60 * T) = Some (u, g) \<and>
                 a = aligned_of ((t, h), (u, g)))"
    by blast
  have elem: "\<exists>t h u g. h \<in> set (hrows hf) \<and> startDate h = Some t \<and>
      g \<in> set gs \<and> timestamp g = Some u \<and> \<bar>t - u\<bar> \<le> 60 * T \<and>
      a = aligned_of ((t, h), (u, g))" if "a \<in> set merged" for a
  proof -
    from that mm obtain t h u g where h: "h \<in> set (hrows hf)" "startDate h = Some t"
      and n: "asof_nearest t r (60 * T) = Some (u, g)"
      and a: "a = aligned_of ((t, h), (u, g))" by blast
    from asof_nearest_SomeD[OF n] rm have "g \<in> set gs" "timestamp g = Some u" "\<bar>t - u\<bar> \<le> 60 * T"
      by auto
    with h a show ?thesis by blast
  qed
  have part1: "\<bar>time_diff_minutes a\<bar> \<le> real_of_int T \<and>
            time_diff_minutes a = real_of_int (health_timestamp a - glucose_timestamp a) / 60 \<and>
            health a \<in> set (hrows hf) \<and> startDate (health a) = Some (health_timestamp a) \<and>
            reading a \<in> set gs \<and> timestamp (reading a) = Some (glucose_timestamp a)"
    if "a \<in> set merged" for a
  proof -
    from elem[OF that] obtain t h u g where h: "h \<in> set (hrows hf)" "startDate h = Some t"
      and g: "g \<in> set gs" "timestamp g = Some u" and d: "\<bar>t - u\<bar> \<le> 60 * T"
      and a: "a = aligned_of ((t, h), (u, g))" by blast
    from d have "\<bar>real_of_int (t - u)\<bar> \<le> 60 * real_of_int T"
      by (metis of_int_abs of_int_le_iff of_int_mult of_int_numeral)
    then have "\<bar>real_of_int (t - u) / 60\<bar> \<le> real_of_int T" by simp
    with h g show ?thesis unfolding a by (simp add: aligned_of_def)
  qed
  have part2: "health a \<noteq> h"
    if h: "h \<in> set (hrows hf)"
      and far: "\<forall>g\<in>set gs. \<forall>t u. startDate h = Some t \<longrightarrow> timestamp g = Some u \<longrightarrow> 60 * T < \<bar>t - u\<bar>"
      and a: "a \<in> set merged" for h a
  proof
    assume eq: "health a = h"
    from elem[OF a] obtain t h' u g where h': "startDate h' = Some t"
      and g: "g \<in> set gs" "timestamp g = Some u" and d: "\<bar>t - u\<bar> \<le> 60 * T"
      and a': "a = aligned_of ((t, h'), (u, g))" by blast
    from a' eq have "h' = h" by (simp add: aligned_of_def)
    with far h' g have "60 * T < \<bar>t - u\<bar>" by blast
    with d show False by simp
  qed
  from part1 part2 show ?thesis by blast
qed

theorem C4_within_tolerance_witness:
  "align_timestamps (Some sample_health) (Some boundary_readings) 15 = Inr sample_merged \<and>
   \<bar>time_diff_minutes aligned_steps\<bar> \<le> 15 \<and> \<bar>time_diff_minutes aligned_heart\<bar> \<le> 15 \<and>
   reading aligned_heart \<in> set boundary_readings \<and>
   sleep_2100 \<in> set (hrows sample_health) \<and>
   sleep_2100 \<notin> set (map health sample_merged)"
proof -
  note al = sample_aligned
  note c4 = C4_within_tolerance[OF al]
  have m: "aligned_steps \<in> set sample_merged" "aligned_heart \<in> set sample_merged"
    by (simp_all add: sample_merged_def)
  have b: "\<bar>time_diff_minutes aligned_steps\<bar> \<le> 15" "\<bar>time_diff_minutes aligned_heart\<bar> \<le> 15"
    "reading aligned_heart \<in> set boundary_readings"
    using c4 m by auto
  have s: "sleep_2100 \<in> set (hrows sample_health)" by (simp add: sample_health_def)
  have far: "\<forall>g\<in>set boundary_readings. \<forall>t u. startDate sleep_2100 = Some t \<longrightarrow>
               timestamp g = Some u \<longrightarrow> 60 * 15 < \<bar>t - u\<bar>"
    by (simp add: sample_defs)
  from c4 s far have "\<forall>a\<in>set sample_merged. health a \<noteq> sleep_2100" by blast
  then have "sleep_2100 \<notin> set (map health sample_merged)" by auto
  with al b s show ?thesis by simp
qed

subsection \<open>Ties\<close>

text \<open>
  C5. When a health record at instant \<open>t\<close> has a glucose reading \<open>d\<close> seconds before it and
  another \<open>d\<close> seconds after it, \<open>d\<close> within the tolerance, and no reading nearer than \<open>d\<close>,
  the alignment emits a record for it, and every record emitted for it carries the
  timestamp \<open>t - d\<close> of the earlier reading.
\<close>

theorem C5_tie_matches_earlier:
  assumes al: "align_timestamps (Some hf) (Some gs) T = Inr merged"
    and h: "h \<in> set (hrows hf)" "startDate h = Some t"
    and g1: "g1 \<in> set gs" "timestamp g1 = Some (t - d)"
    and g2: "g2 \<in> set gs" "timestamp g2 = Some (t + d)"
    and d: "0 < d" "d \<le> 60 * T"
    and near: "\<forall>g\<in>set gs. \<forall>u. timestamp g = Some u \<longrightarrow> d \<le> \<bar>t - u\<bar>"
  shows "(\<exists>a\<in>set merged. health a = h) \<and>
         (\<forall>a\<in>set merged. health a = h \<longrightarrow> glucose_timestamp a = t - d)"
proof -
  from align_timestamps_elem[OF al] obtain r where
    s: "sorted_wrt (\<lambda>p q. fst p \<le> fst q) r"
    and rm: "\<And>u g. (u, g) \<in> set r \<longleftrightarrow> g \<in> set gs \<and> timestamp g = Some u"
    and mm: "\<And>a. a \<in> set merged \<longleftrightarrow>
              (\<exists>t h u g. h \<in> set (hrows hf) \<and> startDate h = Some t \<and>
                 asof_nearest t r (60 * T) = Some (u, g) \<and>
                 a = aligned_of ((t, h), (u, g)))"
    by blast
  have x: "(t - d, g1) \<in> set r" "fst (t - d, g1) = t - d" using rm g1 by simp_all
  have y: "(t + d, g2) \<in> set r" "fst (t + d, g2) = t + d" using rm g2 by simp_all
  have nr: "d \<le> \<bar>t - fst p\<bar>" if "p \<in> set r" for p
    using that rm[of "fst p" "snd p"] near by auto
  from d have d0: "0 \<le> d" by simp
  from asof_nearest_tie[OF s x y d0 d(2) nr] obtain b where
    b: "asof_nearest t r (60 * T) = Some b" "fst b = t - d" by blast
  obtain u g where ug: "b = (u, g)" by (cases b)
  with b have n: "asof_nearest t r (60 * T) = Some (u, g)" and u: "u = t - d" by simp_all
  have "aligned_of ((t, h), (u, g)) \<in> set merged" using mm h n by blast
  moreover have "health (aligned_of ((t, h), (u, g))) = h" by (simp add: aligned_of_def)
  ultimately have ex: "\<exists>a\<in>set merged. health a = h" by blast
  have "glucose_timestamp a = t - d" if a: "a \<in> set merged" and eq: "health a = h" for a
  proof -
    from a mm obtain t' h' u' g' where h': "startDate h' = Some t'"
      and n': "asof_nearest t' r (60 * T) = Some (u', g')"
      and a': "a = aligned_of ((t', h'), (u', g'))" by blast
    from a' eq have "h' = h" by (simp add: aligned_of_def)
    with h' h(2) have "t' = t" by simp
    with n' n have "u' = u" by simp
    with a' u show ?thesis by (simp add: aligned_of_def)
  qed
  with ex show ?thesis by blast
qed

theorem C5_tie_matches_earlier_witness:
  "align_timestamps (Some sample_health) (Some boundary_readings) 15 = Inr sample_merged \<and>
   aligned_steps \<in> set sample_merged \<and> health aligned_steps = steps_450 \<and>
   timestamp reading_69_999 = Some (450 - 150) \<and> timestamp reading_180 = Some (450 + 150) \<and>
   glucose_timestamp aligned_steps = 300"
proof -
  note al = sample_aligned
  have h: "steps_450 \<in> set (hrows sample_health)" "startDate steps_450 = Some 450"
    by (simp_all add: sample_health_def steps_450_def)
  have g1: "reading_69_999 \<in> set boundary_readings" "timestamp reading_69_999 = Some (450 - 150)"
    by (simp_all add: boundary_readings_def reading_69_999_def)
  have g2: "reading_180 \<in> set boundary_readings" "timestamp reading_180 = Some (450 + 150)"
    by (simp_all add: boundary_readings_def reading_180_def)
  have d: "(0::int) < 150" "(150::int) \<le> 60 * 15" by simp_all
  have near: "\<forall>g\<in>set boundary_readings. \<forall>u. timestamp g = Some u \<longrightarrow> 150 \<le> \<bar>450 - u\<bar>"
    by (simp add: sample_defs)
  note c5 = C5_tie_matches_earlier[OF al h g1 g2 d near]
  have m: "aligned_steps \<in> set sample_merged" by (simp add: sample_merged_def)
  have e: "health aligned_steps = steps_450" by (simp add: aligned_steps_def aligned_of_def)
  from c5 m e have "glucose_timestamp aligned_steps = 450 - 150" by blast
  with al m e g1 g2 show ?thesis by simp
qed

subsection \<open>Inputs that are not loaded, and empty inputs\<close>

text \<open>The frame that the parser builds from no record has no column, and is rejected for
  its missing start date column.\<close>

lemma align_timestamps_no_columns:
  "hcolumns hf = [] \<Longrightarrow>
     align_timestamps (Some hf) (Some gs) T =
       Inl (ValueError ''Apple Health data must have startDate column'')"
  by (simp add: align_timestamps_def)

text \<open>
  C6, as the claim states it: the alignment fails whenever an input is empty or not
  loaded. It does not fail on a loaded input without rows: with no glucose reading, and
  with a health frame that has its columns and no row, the result is the empty series.
\<close>

theorem C6_empty_input_counterexample:
  "align_timestamps (Some sample_health) (Some []) 15 = Inr [] \<and>
   align_timestamps (Some empty_health) (Some boundary_readings) 15 = Inr []"
  by (simp add: align_defs sample_defs empty_health_def)

text \<open>
  C6, amended: the alignment fails with the error of the load guard whenever the health
  input or the glucose input has not been loaded, for every tolerance.
\<close>

theorem C6_unloaded_input_raises:
  assumes "apple_health_data = None \<or> glucose_data = None"
  shows "align_timestamps apple_health_data glucose_data tolerance_minutes =
           Inl (ValueError ''Both datasets must be loaded before merging'')"
  using assms by (auto simp: align_timestamps_def split: option.splits)

theorem C6_unloaded_input_raises_witness:
  "align_timestamps None (Some boundary_readings) 15 =
     Inl (ValueError ''Both datasets must be loaded before merging'') \<and>
   align_timestamps (Some sample_health) None 15 =
     Inl (ValueError ''Both datasets must be loaded before merging'')"
proof -
  have a: "None = None \<or> Some boundary_readings = None" by simp
  have b: "Some sample_health = None \<or> (None :: glucose_reading list option) = None" by simp
  from C6_unloaded_input_raises[OF a, of 15] C6_unloaded_input_raises[OF b, of 15]
  show ?thesis by simp
qed

subsection \<open>Night hours\<close>

text \<open>The test \<open>between(22, 6)\<close> asks for \<open>22 \<le> hour\<close> and \<open>hour \<le> 6\<close>, which no hour
  passes: no timestamp is ever flagged as night.\<close>

lemma is_night_never: "\<not> is_night (features_of t)"
  by (cases t) (simp_all add: features_of_def hour_between_def between_def Let_def)

text \<open>
  C8. The claim: \<open>is_night\<close> is true exactly when the hour is in \<open>[22, 24)\<close> or in
  \<open>[0, 6]\<close>, so 23:00 and 03:00 are night and 12:00 is not. The code yields false for the
  three records with the glucose timestamps 23:00, 03:00 and 12:00 of the first day.
\<close>

theorem C8_night_hours_not_flagged:
  "map (\<lambda>p. map_option (\<lambda>f. (ctx_hour f, is_night f)) (snd p))
     (add_contextual_features [''glucose_timestamp''] (\<lambda>c t. Some t)
        [82800 :: int, 10800, 43200]) =
   [Some (Some 23, False), Some (Some 3, False), Some (Some 12, False)]"
  by (simp add: add_contextual_features_def features_of_def hour_between_def between_def
      hour_of_def dayofweek_of_def)

subsection \<open>Windows and their modes\<close>

lemma aggregate_window_sel:
  "window_start (aggregate_window origin width df i) = origin + i * width"
  "glucose_value_mean (aggregate_window origin width df i) =
     mean (dropna (map (\<lambda>r. glucose_value (reading r)) (window_rows origin width df i)))"
  "type_mode (aggregate_window origin width df i) =
     mode_agg (map (\<lambda>r. type (health r)) (window_rows origin width df i))"
  "glucose_range_mode (aggregate_window origin width df i) =
     mode_agg (map (\<lambda>r. Some (glucose_range (reading r))) (window_rows origin width df i))"
  "glucose_trend_mode (aggregate_window origin width df i) =
     mode_agg (map (\<lambda>r. Some (glucose_trend (reading r))) (window_rows origin width df i))"
  "sourceName_mode (aggregate_window origin width df i) =
     mode_agg (map (\<lambda>r. sourceName (health r)) (window_rows origin width df i))"
  by (simp_all add: aggregate_window_def Let_def)

lemma sample_merged_fields:
  "map glucose_timestamp sample_merged = [300, 900]"
  "map (\<lambda>r. glucose_value (reading r)) sample_merged = [Some 69.999, Some 180.001]"
  "map (\<lambda>r. type (health r)) sample_merged =
     [Some ''HKQuantityTypeIdentifierStepCount'', Some ''HKQuantityTypeIdentifierHeartRate'']"
  "map (\<lambda>r. Some (glucose_range (reading r))) sample_merged = [Some ''low'', Some ''high'']"
  "map (\<lambda>r. Some (glucose_trend (reading r))) sample_merged = [Some ''stable'', Some ''stable'']"
  "map (\<lambda>r. sourceName (health r)) sample_merged = [Some ''Watch'', Some ''Watch'']"
  by (simp_all add: sample_merged_def aligned_steps_def aligned_heart_def aligned_of_def
      steps_450_def heart_1100_def reading_69_999_def reading_180_001_def)

lemma sample_window_rows: "window_rows 0 3600 sample_merged 0 = sample_merged"
proof -
  have "glucose_timestamp aligned_steps = 300" "glucose_timestamp aligned_heart = 900"
    by (simp_all add: aligned_steps_def aligned_heart_def aligned_of_def)
  then show ?thesis by (simp add: window_rows_def bin_of_def sample_merged_def)
qed

lemma sample_windows:
  "create_time_windows (Some sample_merged) 60 = Inr [aggregate_window 0 3600 sample_merged 0]"
proof -
  have ts: "glucose_timestamp aligned_steps = 300" "glucose_timestamp aligned_heart = 900"
    by (simp_all add: aligned_steps_def aligned_heart_def aligned_of_def)
  have m: "glucose_value_mean (aggregate_window 0 3600 sample_merged 0) \<noteq> FNaN"
    by (simp add: aggregate_window_sel sample_window_rows sample_merged_fields dropna_def
        List.map_filter_simps mean_def)
  have "create_time_windows (Some sample_merged) 60 =
     Inr (filter (\<lambda>w. glucose_value_mean w \<noteq> FNaN) [aggregate_window 0 3600 sample_merged 0])"
    by (simp add: create_time_windows_def sample_merged_def ts bin_of_def Let_def)
  with m show ?thesis by simp
qed

lemma bin_of_iff:
  assumes "0 < width"
  shows "bin_of origin width t = i \<longleftrightarrow> origin + i * width \<le> t \<and> t < origin + i * width + width"
proof -
  define a where "a = t - origin"
  have dm: "a = width * (a div width) + a mod width" by simp
  have r: "0 \<le> a mod width" "a mod width < width" using assms by simp_all
  show ?thesis
  proof
    assume "bin_of origin width t = i"
    then have i: "a div width = i" by (simp add: bin_of_def a_def)
    from dm r i have "i * width \<le> a \<and> a < i * width + width"
      by (metis add.commute add_le_cancel_left add_less_cancel_left add_0_right mult.commute)
    then show "origin + i * width \<le> t \<and> t < origin + i * width + width"
      by (simp add: a_def)
  next
    assume "origin + i * width \<le> t \<and> t < origin + i * width + width"
    then have b: "i * width \<le> a" "a < i * width + width" by (simp_all add: a_def)
    define r where "r = a - i * width"
    have r: "0 \<le> r" "r < width" using b by (simp_all add: r_def)
    have "a div width = (r + i * width) div width" by (simp add: r_def)
    also have "\<dots> = i + r div width" using assms by simp
    also have "r div width = 0" using r by (rule div_pos_pos_trivial)
    finally have "a div width = i" by simp
    then show "bin_of origin width t = i" by (simp add: bin_of_def a_def)
  qed
qed

lemma most_frequent_exists:
  assumes "ys \<noteq> []"
  shows "\<exists>v\<in>set ys. \<forall>w\<in>set ys. count_list ys w \<le> count_list ys v"
proof -
  have fin: "finite (count_list ys ` set ys)" and ne: "count_list ys ` set ys \<noteq> {}"
    using assms by simp_all
  from Max_in[OF fin ne] obtain v where v: "v \<in> set ys"
    "count_list ys v = Max (count_list ys ` set ys)" by auto
  have "count_list ys w \<le> count_list ys v" if "w \<in> set ys" for w
    unfolding v(2) using that fin by (simp add: Max_ge)
  with v(1) show ?thesis by blast
qed

lemma mode_agg_smallest: "smallest_mode x (mode_agg x)"
proof -
  define ys where "ys = dropna x"
  define M where "M = filter (\<lambda>v. list_all (\<lambda>w. count_list ys w \<le> count_list ys v) ys) ys"
  have mode: "mode ys = sort (remdups M)" by (simp add: mode_def M_def)
  have inM: "v \<in> set M \<longleftrightarrow> v \<in> set ys \<and> (\<forall>w\<in>set ys. count_list ys w \<le> count_list ys v)" for v
    by (simp add: M_def list_all_iff)
  show ?thesis
  proof (cases "ys = []")
    case True
    then have "mode ys = []" by (simp add: mode_def)
    with True show ?thesis by (simp add: smallest_mode_def mode_agg_def ys_def)
  next
    case False
    from most_frequent_exists[OF this] obtain v0 where
      "v0 \<in> set ys" "\<forall>w\<in>set ys. count_list ys w \<le> count_list ys v0" by blast
    then have "v0 \<in> set M" unfolding inM by simp
    then have "set M \<noteq> {}" by auto
    then have "set (mode ys) \<noteq> {}" by (simp add: mode)
    then obtain m rest where mr: "mode ys = m # rest" by (cases "mode ys") auto
    have "set (mode ys) = set M" by (simp add: mode)
    with mr have mM: "m \<in> set M" and rest: "set rest \<subseteq> set M" by auto
    have "sorted (mode ys)" by (simp add: mode)
    with mr have le_rest: "\<forall>z\<in>set rest. m \<le> z" by simp
    have least: "m \<le> z" if "z \<in> set M" for z
    proof -
      from that \<open>set (mode ys) = set M\<close> mr have "z = m \<or> z \<in> set rest" by auto
      with le_rest show ?thesis by auto
    qed
    from mM inM have m_in: "m \<in> set ys"
      and m_max: "\<And>w. w \<in> set ys \<Longrightarrow> count_list ys w \<le> count_list ys m" by auto
    have max_all: "count_list ys v \<le> count_list ys m" for v
      by (cases "v \<in> set ys") (simp_all add: m_max)
    have "count_list ys m \<noteq> 0" using m_in unfolding count_list_0_iff by simp
    then have pos: "0 < count_list ys m" by simp
    have tie: "m \<le> v" if eq: "count_list ys v = count_list ys m" for v
    proof -
      from eq pos have "count_list ys v \<noteq> 0" by simp
      then have "v \<in> set ys" unfolding count_list_0_iff by simp
      moreover have "\<forall>w\<in>set ys. count_list ys w \<le> count_list ys v"
        using eq max_all by simp
      ultimately have "v \<in> set M" using inM by blast
      then show ?thesis by (rule least)
    qed
    from mr have "mode_agg x = Some m" by (simp add: mode_agg_def ys_def)
    with m_in max_all tie show ?thesis by (simp add: smallest_mode_def ys_def)
  qed
qed

lemma create_time_windows_elem:
  assumes "create_time_windows (Some df) window_minutes = Inr windows" and "w \<in> set windows"
  shows "0 < window_minutes \<and>
         (\<exists>origin i. w = aggregate_window origin (60 * window_minutes) df i)"
proof -
  from assms(1) have pos: "0 < window_minutes"
    by (simp add: create_time_windows_def split: if_splits)
  from assms(2) obtain r rs where df: "df = r # rs"
    using assms(1) pos by (cases df) (auto simp: create_time_windows_def)
  from assms(1) pos have "\<exists>origin lo hi. windows =
      filter (\<lambda>w. glucose_value_mean w \<noteq> FNaN)
        (map (aggregate_window origin (60 * window_minutes) df) [lo..hi])"
    unfolding df by (auto simp: create_time_windows_def Let_def)
  then obtain origin lo hi where "windows =
      filter (\<lambda>w. glucose_value_mean w \<noteq> FNaN)
        (map (aggregate_window origin (60 * window_minutes) df) [lo..hi])" by blast
  with assms(2) have "\<exists>i. w = aggregate_window origin (60 * window_minutes) df i" by auto
  with pos show ?thesis by blast
qed

lemma window_rows_interval:
  assumes "0 < window_minutes"
  shows "window_rows origin (60 * window_minutes) df i =
           rows_in_window df (origin + i * (60 * window_minutes)) window_minutes"
proof -
  have w: "0 < 60 * window_minutes" using assms by simp
  show ?thesis
    unfolding window_rows_def rows_in_window_def
    by (rule filter_cong[OF refl]) (simp add: bin_of_iff[OF w] add.assoc)
qed

text \<open>
  C7, as the claim states it: among tied values the first one met in the order of the
  rows is the aggregate. In the window of the sample alignment the record types step count
  and heart rate occur once each, in this order, and so do the ranges low and high; the
  aggregates are heart rate and high.
\<close>

theorem C7_first_encountered_counterexample:
  "create_time_windows (Some sample_merged) 60 = Inr [sample_window] \<and>
   rows_in_window sample_merged (window_start sample_window) 60 = sample_merged \<and>
   map (\<lambda>r. type (health r)) sample_merged =
     [Some ''HKQuantityTypeIdentifierStepCount'', Some ''HKQuantityTypeIdentifierHeartRate''] \<and>
   first_encountered_mode (map (\<lambda>r. type (health r)) sample_merged) =
     Some ''HKQuantityTypeIdentifierStepCount'' \<and>
   type_mode sample_window = Some ''HKQuantityTypeIdentifierHeartRate'' \<and>
   map (\<lambda>r. Some (glucose_range (reading r))) sample_merged = [Some ''low'', Some ''high''] \<and>
   first_encountered_mode (map (\<lambda>r. Some (glucose_range (reading r))) sample_merged) =
     Some ''low'' \<and>
   glucose_range_mode sample_window = Some ''high''"
proof -
  have r: "rows_in_window sample_merged (window_start sample_window) 60 = sample_merged"
    unfolding sample_window_def aggregate_window_sel
    using window_rows_interval[of 60 0 sample_merged 0] sample_window_rows by simp
  show ?thesis
    unfolding r
    by (simp add: sample_windows sample_window_def aggregate_window_sel sample_window_rows
        sample_merged_fields first_encountered_mode_def mode_agg_def mode_def dropna_def
        List.map_filter_simps)
qed

text \<open>
  C7, amended: for every window of the result and each of the fields record type, glucose
  range, glucose trend and source name, the aggregate is the most frequent value of the
  field among the rows of the window, and among several most frequent values it is the
  smallest one in the order of the values (null when the window has no value).
\<close>

theorem C7_mode_smallest_on_ties:
  assumes "create_time_windows (Some df) window_minutes = Inr windows" and "w \<in> set windows"
  shows "smallest_mode
           (map (\<lambda>r. type (health r)) (rows_in_window df (window_start w) window_minutes))
           (type_mode w) \<and>
         smallest_mode
           (map (\<lambda>r. Some (glucose_range (reading r)))
              (rows_in_window df (window_start w) window_minutes))
           (glucose_range_mode w) \<and>
         smallest_mode
           (map (\<lambda>r. Some (glucose_trend (reading r)))
              (rows_in_window df (window_start w) window_minutes))
           (glucose_trend_mode w) \<and>
         smallest_mode
           (map (\<lambda>r. sourceName (health r)) (rows_in_window df (window_start w) window_minutes))
           (sourceName_mode w)"
proof -
  from create_time_windows_elem[OF assms] obtain origin i where
    pos: "0 < window_minutes" and w: "w = aggregate_window origin (60 * window_minutes) df i"
    by blast
  have rows: "window_rows origin (60 * window_minutes) df i =
                rows_in_window df (window_start w) window_minutes"
    unfolding w aggregate_window_sel by (rule window_rows_interval[OF pos])
  show ?thesis
    unfolding w aggregate_window_sel(3-6) rows[unfolded w]
    by (intro conjI mode_agg_smallest)
qed

theorem C7_mode_smallest_on_ties_witness:
  "create_time_windows (Some sample_merged) 60 = Inr [sample_window] \<and>
   smallest_mode
     (map (\<lambda>r. type (health r)) (rows_in_window sample_merged (window_start sample_window) 60))
     (type_mode sample_window) \<and>
   type_mode sample_window = Some ''HKQuantityTypeIdentifierHeartRate'' \<and>
   smallest_mode
     (map (\<lambda>r. Some (glucose_range (reading r)))
        (rows_in_window sample_merged (window_start sample_window) 60))
     (glucose_range_mode sample_window) \<and>
   glucose_range_mode sample_window = Some ''high''"
proof -
  have c: "create_time_windows (Some sample_merged) 60 = Inr [sample_window]"
    by (simp add: sample_windows sample_window_def)
  have m: "sample_window \<in> set [sample_window]" by simp
  have v: "type_mode sample_window = Some ''HKQuantityTypeIdentifierHeartRate''"
    "glucose_range_mode sample_window = Some ''high''"
    by (simp_all add: sample_window_def aggregate_window_sel sample_window_rows
        sample_merged_fields mode_agg_def mode_def dropna_def List.map_filter_simps)
  from C7_mode_smallest_on_ties[OF c m] c v show ?thesis by simp
qed

end
